theory Spec2Isabelle
  imports Complex_Main
begin

section \<open>Tables\<close>

text \<open>
  The program works on pandas DataFrames. A cell is a missing value (pandas' NaT, NaN or
  None, according to the column's dtype), a string, a timestamp (nanoseconds since
  1970-01-01 00:00:00), an integer or a decimal number. A decimal stands for the float64
  nearest to it.
\<close>

datatype cell = Null | Str string | Timestamp int | Integer int | Decimal rat

text \<open>
  A DataFrame is its column labels and its rows, each row holding one cell per column.
  The row labels are the default \<^verbatim>\<open>RangeIndex\<close> that \<^verbatim>\<open>read_csv\<close> gives, so a row's
  label is its position.
\<close>

record table =
  columns :: "string list"
  rows :: "cell list list"

text \<open>
  The exceptions a call can end with. \<open>NotDatetimelike\<close> stands for the \<^verbatim>\<open>TypeError\<close> or
  \<^verbatim>\<open>AttributeError\<close> pandas raises when a column that is not of dtype \<^verbatim>\<open>datetime64\<close> is used
  as one; \<open>RequestError\<close> and \<open>ReadError\<close> stand for whatever \<^verbatim>\<open>requests.get\<close> and
  \<^verbatim>\<open>pd.read_csv\<close> raise. \<open>Unsupported\<close> is no exception of the program: it marks an input
  outside the part of a library function that is modelled here.
\<close>

datatype error =
  AttributeError | KeyError | MergeError | ParseError | NotDatetimelike | RequestError | ReadError |
  Unsupported

text \<open>The invariant of a DataFrame read by \<^verbatim>\<open>read_csv\<close>: distinct labels, full rows.\<close>

definition dataframe :: "table \<Rightarrow> bool" where
  "dataframe df \<longleftrightarrow>
     distinct (columns df) \<and> list_all (\<lambda>row. length row = length (columns df)) (rows df)"

fun index_of :: "'a \<Rightarrow> 'a list \<Rightarrow> nat option" where
  "index_of x [] = None"
| "index_of x (y # ys) = (if x = y then Some 0 else map_option Suc (index_of x ys))"

text \<open>\<^verbatim>\<open>row.name\<close> on a row yielded by \<^verbatim>\<open>iterrows\<close>.\<close>

definition getattr :: "string list \<Rightarrow> cell list \<Rightarrow> string \<Rightarrow> error + cell" where
  "getattr cs row name =
     (case index_of name cs of None \<Rightarrow> Inl AttributeError | Some j \<Rightarrow> Inr (row ! j))"

text \<open>\<^verbatim>\<open>df[name]\<close> read as a column.\<close>

definition get_column :: "table \<Rightarrow> string \<Rightarrow> error + cell list" where
  "get_column df name =
     (case index_of name (columns df) of
        None \<Rightarrow> Inl KeyError
      | Some j \<Rightarrow> Inr (map (\<lambda>row. row ! j) (rows df)))"

text \<open>
  \<^verbatim>\<open>df[name] = v\<close> with a scalar: an existing column is overwritten where it stands, a
  new one is appended as the last column.
\<close>

definition set_column :: "table \<Rightarrow> string \<Rightarrow> cell \<Rightarrow> table" where
  "set_column df name v =
     (case index_of name (columns df) of
        None \<Rightarrow> \<lparr>columns = columns df @ [name], rows = map (\<lambda>row. row @ [v]) (rows df)\<rparr>
      | Some j \<Rightarrow> \<lparr>columns = columns df, rows = map (\<lambda>row. row[j := v]) (rows df)\<rparr>)"

text \<open>\<^verbatim>\<open>df[name] = values\<close> with one value per row.\<close>

definition set_column_values :: "table \<Rightarrow> string \<Rightarrow> cell list \<Rightarrow> table" where
  "set_column_values df name vs =
     (case index_of name (columns df) of
        None \<Rightarrow> \<lparr>columns = columns df @ [name],
                  rows = map (\<lambda>(row, v). row @ [v]) (zip (rows df) vs)\<rparr>
      | Some j \<Rightarrow> \<lparr>columns = columns df,
                    rows = map (\<lambda>(row, v). row[j := v]) (zip (rows df) vs)\<rparr>)"

text \<open>
  \<^verbatim>\<open>df.at[index, name] = v\<close> for a column that exists (the only use in the program
  writes a column created just before).
\<close>

definition at_set :: "table \<Rightarrow> nat \<Rightarrow> string \<Rightarrow> cell \<Rightarrow> table" where
  "at_set df index name v =
     (case index_of name (columns df) of
        None \<Rightarrow> df
      | Some j \<Rightarrow> \<lparr>columns = columns df, rows = (rows df)[index := (rows df ! index)[j := v]]\<rparr>)"

section \<open>The event correlator: \<^verbatim>\<open>merge_intake_n_outcome\<close>\<close>

type_synonym outcome_dict = "cell \<rightharpoonup> cell list"

text \<open>
  The first loop (source lines 89 to 95): every outcome row appends its \<^verbatim>\<open>datetime\<close> to
  the list of its \<^verbatim>\<open>animal_id\<close>, creating the list at the first occurrence.
\<close>

fun build_outcome_dict :: "string list \<Rightarrow> cell list list \<Rightarrow> outcome_dict \<Rightarrow> error + outcome_dict" where
  "build_outcome_dict cs [] outcome_dict = Inr outcome_dict"
| "build_outcome_dict cs (row # rest) outcome_dict =
     (case getattr cs row ''animal_id'' of
        Inl e \<Rightarrow> Inl e
      | Inr a \<Rightarrow>
          (case getattr cs row ''datetime'' of
             Inl e \<Rightarrow> Inl e
           | Inr t \<Rightarrow>
               (case outcome_dict a of
                  None \<Rightarrow> build_outcome_dict cs rest (outcome_dict(a \<mapsto> [] @ [t]))
                | Some q \<Rightarrow> build_outcome_dict cs rest (outcome_dict(a \<mapsto> q @ [t])))))"

text \<open>
  The second loop (source lines 99 to 103) runs over the rows \<^verbatim>\<open>iterrows\<close> yields, with
  their positions: when the list of the row's \<^verbatim>\<open>animal_id\<close> exists and is not empty, its
  first element is written to the row's \<^verbatim>\<open>datetime_outcome\<close> and popped.
\<close>

fun assign_outcomes ::
  "string list \<Rightarrow> cell list list \<Rightarrow> nat \<Rightarrow> outcome_dict \<Rightarrow> table \<Rightarrow> error + table" where
  "assign_outcomes cs [] index outcome_dict df = Inr df"
| "assign_outcomes cs (row # rest) index outcome_dict df =
     (case getattr cs row ''animal_id'' of
        Inl e \<Rightarrow> Inl e
      | Inr a \<Rightarrow>
          (case outcome_dict a of
             None \<Rightarrow> assign_outcomes cs rest (Suc index) outcome_dict df
           | Some [] \<Rightarrow> assign_outcomes cs rest (Suc index) outcome_dict df
           | Some (t # q) \<Rightarrow>
               assign_outcomes cs rest (Suc index) (outcome_dict(a \<mapsto> q))
                 (at_set df index ''datetime_outcome'' t)))"

subsection \<open>\<^verbatim>\<open>pd.merge\<close> with \<^verbatim>\<open>how="left"\<close>\<close>

fun key_positions :: "string list \<Rightarrow> string list \<Rightarrow> error + nat list" where
  "key_positions cs [] = Inr []"
| "key_positions cs (k # ks) =
     (case index_of k cs of
        None \<Rightarrow> Inl KeyError
      | Some j \<Rightarrow>
          (case key_positions cs ks of Inl e \<Rightarrow> Inl e | Inr js \<Rightarrow> Inr (j # js)))"

definition key_of :: "nat list \<Rightarrow> cell list \<Rightarrow> cell list" where
  "key_of js row = map (\<lambda>j. row ! j) js"

text \<open>
  The join indexers of a left join: every left row, in order, with each right row of an
  equal key, in the right table's order, or with no right row when there is none. Missing
  values in a key match each other, as pandas has it.
\<close>

definition matches :: "cell list list \<Rightarrow> cell list \<Rightarrow> nat list" where
  "matches rkeys k = filter (\<lambda>j. rkeys ! j = k) [0..<length rkeys]"

definition join_indexers :: "cell list list \<Rightarrow> cell list list \<Rightarrow> (nat \<times> nat option) list" where
  "join_indexers lkeys rkeys =
     concat (map (\<lambda>i. if matches rkeys (lkeys ! i) = [] then [(i, None)]
                       else map (\<lambda>j. (i, Some j)) (matches rkeys (lkeys ! i)))
                 [0..<length lkeys])"

text \<open>The indexers \<^verbatim>\<open>pd.merge\<close> computes from the key columns of the two tables.\<close>

definition merge_indexers ::
  "table \<Rightarrow> table \<Rightarrow> string list \<Rightarrow> string list \<Rightarrow> error + (nat \<times> nat option) list" where
  "merge_indexers left right left_on right_on =
     (case key_positions (columns left) left_on of
        Inl e \<Rightarrow> Inl e
      | Inr ljs \<Rightarrow>
          (case key_positions (columns right) right_on of
             Inl e \<Rightarrow> Inl e
           | Inr rjs \<Rightarrow>
               Inr (join_indexers (map (key_of ljs) (rows left)) (map (key_of rjs) (rows right)))))"

definition drop_labels :: "string list \<Rightarrow> string list \<Rightarrow> cell list \<Rightarrow> cell list" where
  "drop_labels gone cs row = map snd (filter (\<lambda>(c, v). c \<notin> set gone) (zip cs row))"

text \<open>
  The labels of the result: a label that stands on both sides takes the side's suffix,
  and pandas refuses suffixes that make two labels of one side equal.
\<close>

definition items_overlap_with_suffix ::
  "string list \<Rightarrow> string list \<Rightarrow> string \<times> string \<Rightarrow> error + string list \<times> string list" where
  "items_overlap_with_suffix lcols rcols suffixes =
     (let llabels = map (\<lambda>c. if c \<in> set rcols then c @ fst suffixes else c) lcols;
          rlabels = map (\<lambda>c. if c \<in> set lcols then c @ snd suffixes else c) rcols
      in if \<not> distinct llabels \<or> \<not> distinct rlabels then Inl MergeError
         else Inr (llabels, rlabels))"

text \<open>
  A key named alike on both sides is kept once: the right table's copy is dropped, or the
  left one's when the left table has no row.
\<close>

definition common_keys :: "string list \<Rightarrow> string list \<Rightarrow> string list" where
  "common_keys left_on right_on = map fst (filter (\<lambda>(lk, rk). lk = rk) (zip left_on right_on))"

definition left_drop :: "table \<Rightarrow> string list \<Rightarrow> string list \<Rightarrow> string list" where
  "left_drop left left_on right_on = (if rows left = [] then common_keys left_on right_on else [])"

definition right_drop :: "table \<Rightarrow> string list \<Rightarrow> string list \<Rightarrow> string list" where
  "right_drop left left_on right_on = (if rows left = [] then [] else common_keys left_on right_on)"

text \<open>
  A row of the result: a left row followed by the right row it is joined to, or by
  missing values.
\<close>

definition join_row ::
  "table \<Rightarrow> table \<Rightarrow> string list \<Rightarrow> string list \<Rightarrow> nat \<times> nat option \<Rightarrow> cell list" where
  "join_row left right ldrop rdrop im =
     drop_labels ldrop (columns left) (rows left ! fst im) @
     (case snd im of
        None \<Rightarrow> replicate (length (filter (\<lambda>c. c \<notin> set rdrop) (columns right))) Null
      | Some j \<Rightarrow> drop_labels rdrop (columns right) (rows right ! j))"

definition pd_merge_left ::
  "table \<Rightarrow> table \<Rightarrow> string list \<Rightarrow> string list \<Rightarrow> string \<times> string \<Rightarrow> error + table" where
  "pd_merge_left left right left_on right_on suffixes =
     (case merge_indexers left right left_on right_on of
        Inl e \<Rightarrow> Inl e
      | Inr indexers \<Rightarrow>
          (let ldrop = left_drop left left_on right_on;
               rdrop = right_drop left left_on right_on
           in case items_overlap_with_suffix
                     (filter (\<lambda>c. c \<notin> set ldrop) (columns left))
                     (filter (\<lambda>c. c \<notin> set rdrop) (columns right)) suffixes of
                Inl e \<Rightarrow> Inl e
              | Inr (llabels, rlabels) \<Rightarrow>
                  Inr \<lparr>columns = llabels @ rlabels,
                       rows = map (join_row left right ldrop rdrop) indexers\<rparr>))"

subsection \<open>The function\<close>

text \<open>
  The two arguments are two DataFrame objects of the caller; the function writes to the
  first and returns a third. The state is the pair of them.
\<close>

record frames =
  intake_data :: table
  outcome_data :: table

definition merge_intake_n_outcome :: "frames \<Rightarrow> frames \<times> (error + table)" where
  "merge_intake_n_outcome s =
     (case build_outcome_dict (columns (outcome_data s)) (rows (outcome_data s)) Map.empty of
        Inl e \<Rightarrow> (s, Inl e)
      | Inr outcome_dict \<Rightarrow>
          (let s1 = s\<lparr>intake_data := set_column (intake_data s) ''datetime_outcome'' Null\<rparr>
           in case assign_outcomes (columns (intake_data s1)) (rows (intake_data s1)) 0
                     outcome_dict (intake_data s1) of
                Inl e \<Rightarrow> (s1, Inl e)
              | Inr df \<Rightarrow>
                  (let s2 = s1\<lparr>intake_data := df\<rparr>
                   in (s2, pd_merge_left (intake_data s2) (outcome_data s2)
                             [''animal_id'', ''datetime_outcome''] [''animal_id'', ''datetime'']
                             (''_intake'', ''_outcome'')))))"

section \<open>The duration calculator: \<^verbatim>\<open>calculate_time_delta\<close>\<close>

text \<open>A Series: a named column on its own.\<close>

record series =
  series_name :: string
  series_values :: "cell list"

definition day_ns :: int where
  "day_ns = 86400000000000"

text \<open>
  \<^verbatim>\<open>df[end] - df[start]\<close> for two \<^verbatim>\<open>datetime64\<close> columns: the differences in nanoseconds,
  \<open>None\<close> for \<^verbatim>\<open>NaT\<close>.
\<close>

fun sub_cell :: "cell \<Rightarrow> cell \<Rightarrow> error + int option" where
  "sub_cell (Timestamp e) (Timestamp b) = Inr (Some (e - b))"
| "sub_cell (Timestamp e) Null = Inr None"
| "sub_cell Null (Timestamp b) = Inr None"
| "sub_cell Null Null = Inr None"
| "sub_cell x y = Inl NotDatetimelike"

fun sub_columns :: "cell list \<Rightarrow> cell list \<Rightarrow> error + int option list" where
  "sub_columns (x # xs) (y # ys) =
     (case sub_cell x y of
        Inl e \<Rightarrow> Inl e
      | Inr d \<Rightarrow> (case sub_columns xs ys of Inl e \<Rightarrow> Inl e | Inr ds \<Rightarrow> Inr (d # ds)))"
| "sub_columns xs ys = Inr []"

text \<open>
  \<^verbatim>\<open>.dt.days\<close>: the whole days of each difference, rounded down. The result is an
  \<^verbatim>\<open>int64\<close> column, or a \<^verbatim>\<open>float64\<close> column when a value is missing.
\<close>

definition dt_days :: "int option list \<Rightarrow> cell list" where
  "dt_days ds =
     (if None \<in> set ds
      then map (\<lambda>d. case d of None \<Rightarrow> Null | Some n \<Rightarrow> Decimal (of_int (n div day_ns))) ds
      else map (\<lambda>d. case d of None \<Rightarrow> Null | Some n \<Rightarrow> Integer (n div day_ns)) ds)"

text \<open>
  \<^verbatim>\<open>round(x, 1)\<close> of a float column is numpy's rounding: \<^verbatim>\<open>rint(x * 10) / 10\<close>, where
  \<^verbatim>\<open>rint\<close> rounds to the nearest integer and a tie to the even one.
\<close>

definition rint :: "rat \<Rightarrow> int" where
  "rint x =
     (if x - of_int \<lfloor>x\<rfloor> < 1 / 2 then \<lfloor>x\<rfloor>
      else if 1 / 2 < x - of_int \<lfloor>x\<rfloor> then \<lfloor>x\<rfloor> + 1
      else if even \<lfloor>x\<rfloor> then \<lfloor>x\<rfloor> else \<lfloor>x\<rfloor> + 1)"

definition round1 :: "rat \<Rightarrow> rat" where
  "round1 x = of_int (rint (x * 10)) / 10"

text \<open>\<^verbatim>\<open>round(time_in_days / 365.25, 1)\<close>, cell by cell.\<close>

fun years_cell :: "cell \<Rightarrow> cell" where
  "years_cell (Integer d) = Decimal (round1 (of_int d / (36525 / 100)))"
| "years_cell (Decimal d) = Decimal (round1 (d / (36525 / 100)))"
| "years_cell c = Null"

definition calculate_time_delta ::
  "table \<Rightarrow> string \<Rightarrow> string \<Rightarrow> string \<Rightarrow> string \<Rightarrow> table \<times> (error + series)" where
  "calculate_time_delta df start end' unit col_suffix =
     (case get_column df end' of
        Inl e \<Rightarrow> (df, Inl e)
      | Inr ends \<Rightarrow>
     (case get_column df start of
        Inl e \<Rightarrow> (df, Inl e)
      | Inr starts \<Rightarrow>
     (case sub_columns ends starts of
        Inl e \<Rightarrow> (df, Inl e)
      | Inr time_delta \<Rightarrow>
          (let time_in_days = dt_days time_delta;
               column_name =
                 (if start = ''date_of_birth''
                  then ''age_upon_'' @ col_suffix @ ''('' @ unit @ '')''
                  else ''duration('' @ unit @ '')'');
               column =
                 (if start = ''date_of_birth'' \<and> unit = ''years''
                  then map years_cell time_in_days
                  else time_in_days);
               df' = set_column_values df column_name column
           in case get_column df' column_name of
                Inl e \<Rightarrow> (df', Inl e)
              | Inr vs \<Rightarrow> (df', Inr \<lparr>series_name = column_name, series_values = vs\<rparr>)))))"

section \<open>The source loader: \<^verbatim>\<open>get_data\<close>\<close>

text \<open>
  The network is a parameter: what \<^verbatim>\<open>requests.get(url)\<close> answers (the status code, or
  \<open>None\<close> when the call raises) and what \<^verbatim>\<open>pd.read_csv(url)\<close> reads (\<open>None\<close> when it raises).
\<close>

record network =
  requests_get :: "string \<Rightarrow> nat option"
  read_csv :: "string \<Rightarrow> table option"

text \<open>The two lines the function prints, by their parts: file name, and row count or status.\<close>

datatype message = Successfully_get string nat | Failed_to_retrieve string nat

text \<open>
  The loop over \<^verbatim>\<open>urls.items()\<close> (source lines 19 to 30), in the dictionary's order, with
  the dictionary \<^verbatim>\<open>data_dict\<close> and the lines printed so far.
\<close>

fun fetch_all ::
  "network \<Rightarrow> (string \<times> string) list \<Rightarrow> (string \<rightharpoonup> table) \<Rightarrow> message list \<Rightarrow>
     message list \<times> (error + (string \<rightharpoonup> table))" where
  "fetch_all net [] data_dict printed = (printed, Inr data_dict)"
| "fetch_all net ((file_name, url) # rest) data_dict printed =
     (case requests_get net url of
        None \<Rightarrow> (printed, Inl RequestError)
      | Some status_code \<Rightarrow>
          (if status_code = 200
           then (case read_csv net url of
                   None \<Rightarrow> (printed, Inl ReadError)
                 | Some data \<Rightarrow>
                     fetch_all net rest (data_dict(file_name \<mapsto> data))
                       (printed @ [Successfully_get file_name (length (rows data))]))
           else fetch_all net rest data_dict
                  (printed @ [Failed_to_retrieve file_name status_code])))"

text \<open>
  The function: the loop, then \<^verbatim>\<open>data_dict["intake"]\<close> and \<^verbatim>\<open>data_dict["outcome"]\<close>, each a
  \<^verbatim>\<open>KeyError\<close> when the name is missing. The result is what was printed and what the
  call returned or raised.
\<close>

definition get_data ::
  "network \<Rightarrow> (string \<times> string) list \<Rightarrow> message list \<times> (error + table \<times> table)" where
  "get_data net urls =
     (case fetch_all net urls Map.empty [] of
        (printed, Inl e) \<Rightarrow> (printed, Inl e)
      | (printed, Inr data_dict) \<Rightarrow>
          (case data_dict ''intake'' of
             None \<Rightarrow> (printed, Inl KeyError)
           | Some intake_data' \<Rightarrow>
               (case data_dict ''outcome'' of
                  None \<Rightarrow> (printed, Inl KeyError)
                | Some outcome_data' \<Rightarrow> (printed, Inr (intake_data', outcome_data')))))"

text \<open>
  Every call of the loop answers: no request raises, and no read of an address that
  answered 200 raises.
\<close>

definition answers :: "network \<Rightarrow> (string \<times> string) list \<Rightarrow> bool" where
  "answers net urls \<longleftrightarrow>
     list_all (\<lambda>(file_name, url).
        requests_get net url \<noteq> None \<and>
        (requests_get net url = Some 200 \<longrightarrow> read_csv net url \<noteq> None)) urls"

text \<open>The datasets the loop collects: those whose address answered 200.\<close>

definition collected :: "network \<Rightarrow> (string \<times> string) list \<Rightarrow> string \<Rightarrow> bool" where
  "collected net urls file_name \<longleftrightarrow>
     (\<exists>url \<in> set (map snd (filter (\<lambda>(n, u). n = file_name) urls)).
        requests_get net url = Some 200)"

section \<open>The date normalizer: \<^verbatim>\<open>date_format\<close>\<close>

text \<open>
  The function is two calls of \<^verbatim>\<open>pd.to_datetime\<close> around one of \<^verbatim>\<open>.dt.strftime\<close>. The two
  library functions are parameters of its model, each taking a column to a column or to
  the exception it raises.
\<close>

record datetimes =
  to_datetime :: "cell list \<Rightarrow> error + cell list"
  strftime :: "string \<Rightarrow> cell list \<Rightarrow> error + cell list"

text \<open>
  Source lines 60 to 62. The table is written twice, so an exception of the second
  statement leaves the parsed column behind.
\<close>

definition date_format ::
  "datetimes \<Rightarrow> table \<Rightarrow> string \<Rightarrow> string \<Rightarrow> table \<times> (error + table)" where
  "date_format lib df col datetime_format =
     (case get_column df col of
        Inl e \<Rightarrow> (df, Inl e)
      | Inr strings \<Rightarrow>
     (case to_datetime lib strings of
        Inl e \<Rightarrow> (df, Inl e)
      | Inr parsed \<Rightarrow>
          (let df1 = set_column_values df col parsed
           in case get_column df1 col of
                Inl e \<Rightarrow> (df1, Inl e)
              | Inr timestamps \<Rightarrow>
             (case strftime lib datetime_format timestamps of
                Inl e \<Rightarrow> (df1, Inl e)
              | Inr rendered \<Rightarrow>
             (case to_datetime lib rendered of
                Inl e \<Rightarrow> (df1, Inl e)
              | Inr reparsed \<Rightarrow>
                  (let df2 = set_column_values df1 col reparsed in (df2, Inr df2)))))))"

subsection \<open>The library on ISO 8601 strings\<close>

text \<open>
  The proleptic Gregorian calendar of pandas' timestamps: the day number of a date
  (days since 1970-01-01) and the date of a day number.
\<close>

definition days_from_civil :: "int \<Rightarrow> int \<Rightarrow> int \<Rightarrow> int" where
  "days_from_civil y m d =
     (let y' = (if m \<le> 2 then y - 1 else y);
          era = y' div 400;
          yoe = y' - era * 400;
          doy = (153 * (if 2 < m then m - 3 else m + 9) + 2) div 5 + d - 1;
          doe = yoe * 365 + yoe div 4 - yoe div 100 + doy
      in era * 146097 + doe - 719468)"

definition civil_from_days :: "int \<Rightarrow> int \<times> int \<times> int" where
  "civil_from_days z =
     (let z' = z + 719468;
          era = z' div 146097;
          doe = z' - era * 146097;
          yoe = (doe - doe div 1460 + doe div 36524 - doe div 146096) div 365;
          doy = doe - (365 * yoe + yoe div 4 - yoe div 100);
          mp = (5 * doy + 2) div 153;
          d = doy - (153 * mp + 2) div 5 + 1;
          m = (if mp < 10 then mp + 3 else mp - 9);
          y = yoe + era * 400
      in (if m \<le> 2 then y + 1 else y, m, d))"

definition days_in_month :: "int \<Rightarrow> int \<Rightarrow> int" where
  "days_in_month y m =
     (if m = 2 then (if y mod 4 = 0 \<and> (y mod 100 \<noteq> 0 \<or> y mod 400 = 0) then 29 else 28)
      else if m = 4 \<or> m = 6 \<or> m = 9 \<or> m = 11 then 30 else 31)"

text \<open>Decimal digits.\<close>

definition digit_char :: "int \<Rightarrow> char" where
  "digit_char n = ''0123456789'' ! nat n"

definition pad :: "nat \<Rightarrow> int \<Rightarrow> string" where
  "pad w n = map (\<lambda>i. digit_char (n div 10 ^ (w - 1 - i) mod 10)) [0..<w]"

fun number :: "string \<Rightarrow> int option" where
  "number [] = None"
| "number cs =
     (if list_all (\<lambda>c. c \<in> set ''0123456789'') cs
      then Some (foldl (\<lambda>n c. 10 * n + int (the (index_of c ''0123456789''))) 0 cs)
      else None)"

text \<open>
  \<^verbatim>\<open>.dt.strftime\<close> for the directives \<^verbatim>\<open>%Y %m %d %H %M %S %%\<close> and a year of four digits;
  \<open>None\<close> for any other directive.
\<close>

definition directive :: "char \<Rightarrow> int \<Rightarrow> string option" where
  "directive c t =
     (let (y, m, d) = civil_from_days (t div day_ns);
          tod = t mod day_ns
      in if c = CHR ''Y'' then (if 0 \<le> y \<and> y \<le> 9999 then Some (pad 4 y) else None)
         else if c = CHR ''m'' then Some (pad 2 m)
         else if c = CHR ''d'' then Some (pad 2 d)
         else if c = CHR ''H'' then Some (pad 2 (tod div 3600000000000))
         else if c = CHR ''M'' then Some (pad 2 (tod div 60000000000 mod 60))
         else if c = CHR ''S'' then Some (pad 2 (tod div 1000000000 mod 60))
         else if c = CHR ''%'' then Some ''%''
         else None)"

fun render :: "string \<Rightarrow> int \<Rightarrow> string option" where
  "render [] t = Some []"
| "render [c] t = (if c = CHR ''%'' then None else Some [c])"
| "render (c # c' # cs) t =
     (if c = CHR ''%''
      then (case directive c' t of
              None \<Rightarrow> None
            | Some s \<Rightarrow> map_option (\<lambda>r. s @ r) (render cs t))
      else map_option (\<lambda>r. c # r) (render (c' # cs) t))"

text \<open>
  \<^verbatim>\<open>pd.to_datetime\<close> for a string \<^verbatim>\<open>YYYY-MM-DD\<close>, alone or followed by a blank or a \<^verbatim>\<open>T\<close>
  and \<^verbatim>\<open>HH:MM\<close>, \<^verbatim>\<open>HH:MM:SS\<close> or \<^verbatim>\<open>HH:MM:SS.f\<close> with up to nine digits of fraction;
  \<open>None\<close> for any other string.
\<close>

definition parse_seconds :: "string \<Rightarrow> int option" where
  "parse_seconds s =
     (if s = [] then Some 0
      else if length s < 3 \<or> s ! 0 \<noteq> CHR '':'' then None
      else (case number (take 2 (drop 1 s)) of
              None \<Rightarrow> None
            | Some sec \<Rightarrow>
                (if 60 \<le> sec then None
                 else if drop 3 s = [] then Some (sec * 1000000000)
                 else if s ! 3 \<noteq> CHR ''.'' \<or> 9 < length (drop 4 s) then None
                 else (case number (drop 4 s) of
                         None \<Rightarrow> None
                       | Some f \<Rightarrow>
                           Some (sec * 1000000000 + f * 10 ^ (9 - length (drop 4 s)))))))"

definition parse_time :: "string \<Rightarrow> int option" where
  "parse_time s =
     (if s = [] then Some 0
      else if length s < 6 \<or> (s ! 0 \<noteq> CHR '' '' \<and> s ! 0 \<noteq> CHR ''T'') \<or> s ! 3 \<noteq> CHR '':''
      then None
      else (case (number (take 2 (drop 1 s)), number (take 2 (drop 4 s)), parse_seconds (drop 6 s)) of
              (Some h, Some mi, Some ns) \<Rightarrow>
                (if h < 24 \<and> mi < 60 then Some (h * 3600000000000 + mi * 60000000000 + ns)
                 else None)
            | _ \<Rightarrow> None))"

definition parse_iso :: "string \<Rightarrow> int option" where
  "parse_iso s =
     (if length s < 10 \<or> s ! 4 \<noteq> CHR ''-'' \<or> s ! 7 \<noteq> CHR ''-'' then None
      else (case (number (take 4 s), number (take 2 (drop 5 s)), number (take 2 (drop 8 s)),
                  parse_time (drop 10 s)) of
              (Some y, Some m, Some d, Some tod) \<Rightarrow>
                (if 1 \<le> m \<and> m \<le> 12 \<and> 1 \<le> d \<and> d \<le> days_in_month y m
                 then Some (days_from_civil y m d * day_ns + tod)
                 else None)
            | _ \<Rightarrow> None))"

text \<open>
  The two functions on columns. A missing value stays missing; a timestamp parses to
  itself; a string or a format outside the part above gives \<open>Unsupported\<close>.
\<close>

fun sequence :: "(error + 'a) list \<Rightarrow> error + 'a list" where
  "sequence [] = Inr []"
| "sequence (x # xs) =
     (case x of
        Inl e \<Rightarrow> Inl e
      | Inr v \<Rightarrow> (case sequence xs of Inl e \<Rightarrow> Inl e | Inr vs \<Rightarrow> Inr (v # vs)))"

fun to_datetime_cell :: "cell \<Rightarrow> error + cell" where
  "to_datetime_cell Null = Inr Null"
| "to_datetime_cell (Timestamp t) = Inr (Timestamp t)"
| "to_datetime_cell (Str s) =
     (case parse_iso s of None \<Rightarrow> Inl Unsupported | Some t \<Rightarrow> Inr (Timestamp t))"
| "to_datetime_cell c = Inl Unsupported"

fun strftime_cell :: "string \<Rightarrow> cell \<Rightarrow> error + cell" where
  "strftime_cell fmt Null = Inr Null"
| "strftime_cell fmt (Timestamp t) =
     (case render fmt t of None \<Rightarrow> Inl Unsupported | Some s \<Rightarrow> Inr (Str s))"
| "strftime_cell fmt c = Inl NotDatetimelike"

definition iso_datetimes :: datetimes where
  "iso_datetimes =
     \<lparr>to_datetime = (\<lambda>cs. sequence (map to_datetime_cell cs)),
      strftime = (\<lambda>fmt cs. sequence (map (strftime_cell fmt) cs))\<rparr>"

text \<open>
  The strings the column is rendered to between the two parses:
  \<^verbatim>\<open>pd.to_datetime(df[col]).dt.strftime(datetime_format)\<close>.
\<close>

definition rendered :: "datetimes \<Rightarrow> table \<Rightarrow> string \<Rightarrow> string \<Rightarrow> error + cell list" where
  "rendered lib df col datetime_format =
     (case get_column df col of
        Inl e \<Rightarrow> Inl e
      | Inr strings \<Rightarrow>
          (case to_datetime lib strings of
             Inl e \<Rightarrow> Inl e
           | Inr parsed \<Rightarrow> strftime lib datetime_format parsed))"

definition extend_dict :: "nat \<Rightarrow> nat \<Rightarrow> cell list list \<Rightarrow> outcome_dict \<Rightarrow> outcome_dict" where
  "extend_dict ia it rs d =
     (\<lambda>a. case d a of
            None \<Rightarrow> (case map (\<lambda>r. r ! it) (filter (\<lambda>r. r ! ia = a) rs) of [] \<Rightarrow> None | t # q \<Rightarrow> Some (t # q))
          | Some q0 \<Rightarrow> Some (q0 @ map (\<lambda>r. r ! it) (filter (\<lambda>r. r ! ia = a) rs)))"

definition queue :: "outcome_dict \<Rightarrow> cell \<Rightarrow> cell list" where
  "queue d a = (case d a of None \<Rightarrow> [] | Some q \<Rightarrow> q)"

fun fifo :: "outcome_dict \<Rightarrow> cell list \<Rightarrow> cell option list" where
  "fifo d [] = []"
| "fifo d (a # as) =
     (case d a of
        None \<Rightarrow> None # fifo d as
      | Some [] \<Rightarrow> None # fifo d as
      | Some (t # q) \<Rightarrow> Some t # fifo (d(a \<mapsto> q)) as)"

definition cell_at :: "table \<Rightarrow> string \<Rightarrow> cell list \<Rightarrow> cell" where
  "cell_at df name row = (case index_of name (columns df) of None \<Rightarrow> Null | Some j \<Rightarrow> row ! j)"

definition entity_rows :: "table \<Rightarrow> cell \<Rightarrow> cell list list" where
  "entity_rows df a = filter (\<lambda>row. cell_at df ''animal_id'' row = a) (rows df)"

definition outcome_times :: "table \<Rightarrow> cell \<Rightarrow> cell list" where
  "outcome_times df a = map (cell_at df ''datetime'') (entity_rows df a)"

definition matched_times :: "table \<Rightarrow> cell \<Rightarrow> cell list" where
  "matched_times df a = map (cell_at df ''datetime_outcome'') (entity_rows df a)"

fun is_str :: "cell \<Rightarrow> bool" where
  "is_str (Str s) = True"
| "is_str c = False"

fun is_timestamp :: "cell \<Rightarrow> bool" where
  "is_timestamp (Timestamp t) = True"
| "is_timestamp c = False"

definition intake_events :: "table \<Rightarrow> bool" where
  "intake_events df \<longleftrightarrow>
     dataframe df \<and> ''animal_id'' \<in> set (columns df) \<and>
     list_all (\<lambda>row. is_str (cell_at df ''animal_id'' row)) (rows df)"

definition outcome_events :: "table \<Rightarrow> bool" where
  "outcome_events df \<longleftrightarrow>
     dataframe df \<and> ''animal_id'' \<in> set (columns df) \<and> ''datetime'' \<in> set (columns df) \<and>
     list_all (\<lambda>row. is_str (cell_at df ''animal_id'' row) \<and>
                        is_timestamp (cell_at df ''datetime'' row)) (rows df)"

definition pop_rows :: "nat \<Rightarrow> nat \<Rightarrow> outcome_dict \<Rightarrow> cell list list \<Rightarrow> cell list list" where
  "pop_rows ia jo d rs =
     map (\<lambda>(row, m). case m of None \<Rightarrow> row | Some t \<Rightarrow> row[jo := t])
         (zip rs (fifo d (map (\<lambda>r. r ! ia) rs)))"

definition correlated :: "nat \<Rightarrow> nat \<Rightarrow> nat \<Rightarrow> nat \<Rightarrow> table \<Rightarrow> table \<Rightarrow> table" where
  "correlated ia jo iao ito intake outcome =
     \<lparr>columns = columns (set_column intake ''datetime_outcome'' Null),
      rows = pop_rows ia jo (extend_dict iao ito (rows outcome) Map.empty)
               (rows (set_column intake ''datetime_outcome'' Null))\<rparr>"

text \<open>A column of dtype \<^verbatim>\<open>datetime64\<close>: timestamps and missing values.\<close>

definition datetime_column :: "table \<Rightarrow> string \<Rightarrow> bool" where
  "datetime_column df c \<longleftrightarrow>
     c \<in> set (columns df) \<and>
     list_all (\<lambda>row. is_timestamp (cell_at df c row) \<or> cell_at df c row = Null) (rows df)"

text \<open>
  The tables of the function's doctest (seconds since 1970 for nanoseconds, which changes
  no comparison): \<open>a\<close> came in twice and left once, \<open>b\<close>, \<open>c\<close> and \<open>d\<close> came in and left once,
  \<open>e\<close> came in and has not left.
\<close>

definition example_intake :: table where
  "example_intake =
     \<lparr>columns = [''animal_id'', ''datetime''],
      rows = [[Str ''a'', Timestamp 1557339600], [Str ''a'', Timestamp 1597224900],
              [Str ''b'', Timestamp 1366529040], [Str ''c'', Timestamp 1637855400],
              [Str ''d'', Timestamp 1646687100], [Str ''e'', Timestamp 1689682500]]\<rparr>"

definition example_outcome :: table where
  "example_outcome =
     \<lparr>columns = [''animal_id'', ''datetime''],
      rows = [[Str ''a'', Timestamp 1557771600], [Str ''b'', Timestamp 1366529040],
              [Str ''c'', Timestamp 1637855400], [Str ''d'', Timestamp 1663489800]]\<rparr>"

definition example_frames :: frames where
  "example_frames = \<lparr>intake_data = example_intake, outcome_data = example_outcome\<rparr>"

text \<open>
  One entity that came in twice and has three outcome rows with the same timestamp.
\<close>

definition duplicate_frames :: frames where
  "duplicate_frames =
     \<lparr>intake_data =
        \<lparr>columns = [''animal_id'', ''datetime''],
         rows = [[Str ''a'', Timestamp 1], [Str ''a'', Timestamp 2]]\<rparr>,
      outcome_data =
        \<lparr>columns = [''animal_id'', ''datetime'', ''outcome_type''],
         rows = [[Str ''a'', Timestamp 5, Str ''Transfer''],
                 [Str ''a'', Timestamp 5, Str ''Adoption''],
                 [Str ''a'', Timestamp 5, Str ''Return'']]\<rparr>\<rparr>"

text \<open>The table the doctest expects for them.\<close>

definition example_merged :: table where
  "example_merged =
     \<lparr>columns = [''animal_id'', ''datetime_intake'', ''datetime_outcome'', ''datetime_outcome''],
      rows = [[Str ''a'', Timestamp 1557339600, Timestamp 1557771600, Timestamp 1557771600],
              [Str ''a'', Timestamp 1597224900, Null, Null],
              [Str ''b'', Timestamp 1366529040, Timestamp 1366529040, Timestamp 1366529040],
              [Str ''c'', Timestamp 1637855400, Timestamp 1637855400, Timestamp 1637855400],
              [Str ''d'', Timestamp 1646687100, Timestamp 1663489800, Timestamp 1663489800],
              [Str ''e'', Timestamp 1689682500, Null, Null]]\<rparr>"

text \<open>An outcome table that has a column \<^verbatim>\<open>datetime_outcome\<close> of its own.\<close>

definition suffixed_frames :: frames where
  "suffixed_frames =
     \<lparr>intake_data =
        \<lparr>columns = [''animal_id'', ''datetime''],
         rows = [[Str ''a'', Timestamp 1]]\<rparr>,
      outcome_data =
        \<lparr>columns = [''animal_id'', ''datetime'', ''datetime_outcome''],
         rows = [[Str ''a'', Timestamp 5, Timestamp 7]]\<rparr>\<rparr>"

text \<open>
  The doctest of \<^verbatim>\<open>calculate_time_delta\<close>: from 2014-04-02 15:55:00 to 2015-04-27 14:45:00,
  in nanoseconds since 1970.
\<close>

definition birth_frame :: table where
  "birth_frame =
     \<lparr>columns = [''date_of_birth'', ''date_leave''],
      rows = [[Timestamp 1396454100000000000, Timestamp 1430145900000000000]]\<rparr>"

definition start_frame :: table where
  "start_frame =
     \<lparr>columns = [''date_start'', ''date_end''],
      rows = [[Timestamp 1396454100000000000, Timestamp 1430145900000000000]]\<rparr>"

text \<open>A network where the intake address answers 200 and the outcome address 404.\<close>

definition example_urls :: "(string \<times> string) list" where
  "example_urls = [(''intake'', ''https://intake''), (''outcome'', ''https://outcome'')]"

definition example_network :: network where
  "example_network =
     \<lparr>requests_get = (\<lambda>url. if url = ''https://intake'' then Some 200 else Some 404),
      read_csv = (\<lambda>url. if url = ''https://intake'' then Some example_intake else None)\<rparr>"

text \<open>The two tables of the doctest of \<^verbatim>\<open>date_format\<close>.\<close>

definition date_frame :: table where
  "date_frame = \<lparr>columns = [''date''], rows = [[Str ''2014-04-02 15:55:00'']]\<rparr>"

definition date_frame2 :: table where
  "date_frame2 = \<lparr>columns = [''date''], rows = [[Str ''2013-10-11T11:29:35.000'']]\<rparr>"

definition midnight_frame :: table where
  "midnight_frame = \<lparr>columns = [''date''], rows = [[Str ''2014-04-02 00:00:00'']]\<rparr>"

lemma index_of_Some_less: "index_of x xs = Some j \<Longrightarrow> j < length xs \<and> xs ! j = x"
  by (induction xs arbitrary: j) (auto split: if_splits)

lemma extend_dict_step:
  "extend_dict ia it rs (d(r ! ia \<mapsto> queue d (r ! ia) @ [r ! it])) = extend_dict ia it (r # rs) d"
  by (auto simp: extend_dict_def queue_def fun_eq_iff split: option.splits list.splits)

lemma build_outcome_dict_eq:
  assumes "index_of ''animal_id'' cs = Some ia" "index_of ''datetime'' cs = Some it"
  shows "build_outcome_dict cs rs d = Inr (extend_dict ia it rs d)"
proof (induction rs arbitrary: d)
  case Nil
  show ?case by (auto simp: extend_dict_def fun_eq_iff split: option.splits)
next
  case (Cons r rs)
  show ?case
  proof (cases "d (r ! ia)")
    case None
    have "build_outcome_dict cs (r # rs) d = build_outcome_dict cs rs (d(r ! ia \<mapsto> queue d (r ! ia) @ [r ! it]))"
      using assms None by (simp add: getattr_def queue_def)
    then show ?thesis by (simp only: Cons.IH extend_dict_step)
  next
    case (Some q)
    have "build_outcome_dict cs (r # rs) d = build_outcome_dict cs rs (d(r ! ia \<mapsto> queue d (r ! ia) @ [r ! it]))"
      using assms Some by (simp add: getattr_def queue_def)
    then show ?thesis by (simp only: Cons.IH extend_dict_step)
  qed
qed

lemma length_fifo [simp]: "length (fifo d as) = length as"
  by (induction as arbitrary: d) (auto split: option.splits list.splits)

lemma fifo_entity:
  "map snd (filter (\<lambda>p. fst p = a) (zip as (fifo d as))) =
     map Some (take (length (filter (\<lambda>x. x = a) as)) (queue d a)) @
     replicate (length (filter (\<lambda>x. x = a) as) - length (queue d a)) None"
proof (induction as arbitrary: d)
  case Nil
  show ?case by simp
next
  case (Cons b as)
  show ?case
  proof (cases "d b")
    case None
    then show ?thesis using Cons.IH[of d] by (auto simp: queue_def)
  next
    case (Some q)
    show ?thesis
    proof (cases q)
      case Nil
      then show ?thesis using Some Cons.IH[of d] by (auto simp: queue_def)
    next
      case (Cons t q')
      have q1: "queue (d(b \<mapsto> q')) a = (if a = b then q' else queue d a)"
        by (simp add: queue_def)
      have q2: "queue d b = t # q'" using Some Cons by (simp add: queue_def)
      have IH: "map snd (filter (\<lambda>p. fst p = a) (zip as (fifo (d(b \<mapsto> q')) as))) =
          map Some (take (length (filter (\<lambda>x. x = a) as)) (if a = b then q' else queue d a)) @
          replicate (length (filter (\<lambda>x. x = a) as) - length (if a = b then q' else queue d a)) None"
        unfolding q1[symmetric] by (rule Cons.IH)
      have hd: "fifo d (b # as) = Some t # fifo (d(b \<mapsto> q')) as"
        using Some Cons by simp
      show ?thesis
      proof (cases "a = b")
        case True
        then show ?thesis unfolding hd using IH q2 by simp
      next
        case False
        then show ?thesis unfolding hd using IH by simp
      qed
    qed
  qed
qed

lemma assign_outcomes_eq:
  assumes "index_of ''animal_id'' cs = Some ia"
    and "index_of ''datetime_outcome'' (columns df) = Some jo"
    and "index + length rs \<le> length (rows df)"
  shows "\<exists>df'. assign_outcomes cs rs index d df = Inr df' \<and> columns df' = columns df \<and>
           length (rows df') = length (rows df) \<and>
           (\<forall>p < length (rows df). rows df' ! p =
              (if index \<le> p \<and> p < index + length rs
               then (case fifo d (map (\<lambda>r. r ! ia) rs) ! (p - index) of
                       None \<Rightarrow> rows df ! p
                     | Some t \<Rightarrow> (rows df ! p)[jo := t])
               else rows df ! p))"
  using assms(2,3)
proof (induction rs arbitrary: index d df)
  case Nil
  then show ?case by auto
next
  case (Cons r rs)
  have ga: "getattr cs r ''animal_id'' = Inr (r ! ia)"
    using assms(1) by (simp add: getattr_def)
  consider (skip) "d (r ! ia) = None \<or> d (r ! ia) = Some []"
    | (pop) t q where "d (r ! ia) = Some (t # q)"
    by (metis list.exhaust option.exhaust)
  then show ?case
  proof cases
    case skip
    then have step: "assign_outcomes cs (r # rs) index d df = assign_outcomes cs rs (Suc index) d df"
      and hd: "fifo d (map (\<lambda>r. r ! ia) (r # rs)) = None # fifo d (map (\<lambda>r. r ! ia) rs)"
      using ga by auto
    have le: "Suc index + length rs \<le> length (rows df)" using Cons.prems(2) by simp
    from Cons.IH[OF Cons.prems(1) le, of d]
    obtain df' where df': "assign_outcomes cs rs (Suc index) d df = Inr df'"
      "columns df' = columns df" "length (rows df') = length (rows df)"
      "\<forall>p < length (rows df). rows df' ! p =
              (if Suc index \<le> p \<and> p < Suc index + length rs
               then (case fifo d (map (\<lambda>r. r ! ia) rs) ! (p - Suc index) of
                       None \<Rightarrow> rows df ! p
                     | Some t \<Rightarrow> (rows df ! p)[jo := t])
               else rows df ! p)"
      by blast
    show ?thesis
      unfolding step hd using df' by (auto simp: nth_Cons' Suc_diff_Suc split: option.splits)
  next
    case pop
    define df1 where "df1 = at_set df index ''datetime_outcome'' t"
    define d1 where "d1 = d(r ! ia \<mapsto> q)"
    have df1: "columns df1 = columns df" "rows df1 = (rows df)[index := (rows df ! index)[jo := t]]"
      using Cons.prems(1) by (simp_all add: df1_def at_set_def)
    have step: "assign_outcomes cs (r # rs) index d df = assign_outcomes cs rs (Suc index) d1 df1"
      and hd: "fifo d (map (\<lambda>r. r ! ia) (r # rs)) = Some t # fifo d1 (map (\<lambda>r. r ! ia) rs)"
      using ga pop by (auto simp: df1_def d1_def)
    have c1: "index_of ''datetime_outcome'' (columns df1) = Some jo"
      using Cons.prems(1) df1 by simp
    have le: "Suc index + length rs \<le> length (rows df1)" using Cons.prems(2) df1 by simp
    from Cons.IH[OF c1 le, of d1]
    obtain df' where df': "assign_outcomes cs rs (Suc index) d1 df1 = Inr df'"
      "columns df' = columns df1" "length (rows df') = length (rows df1)"
      "\<forall>p < length (rows df1). rows df' ! p =
              (if Suc index \<le> p \<and> p < Suc index + length rs
               then (case fifo d1 (map (\<lambda>r. r ! ia) rs) ! (p - Suc index) of
                       None \<Rightarrow> rows df1 ! p
                     | Some t \<Rightarrow> (rows df1 ! p)[jo := t])
               else rows df1 ! p)"
      by blast
    have "rows df' ! p =
              (if index \<le> p \<and> p < index + length (r # rs)
               then (case (Some t # fifo d1 (map (\<lambda>r. r ! ia) rs)) ! (p - index) of
                       None \<Rightarrow> rows df ! p
                     | Some t \<Rightarrow> (rows df ! p)[jo := t])
               else rows df ! p)" if "p < length (rows df)" for p
    proof -
      consider "p < index" | "p = index" | "Suc index \<le> p" by linarith
      then show ?thesis
      proof cases
        case 1
        then show ?thesis using df'(4) that df1 by simp
      next
        case 2
        then show ?thesis using df'(4) that df1 by simp
      next
        case 3
        then have "p - index = Suc (p - Suc index)" by simp
        then show ?thesis using 3 df'(4) that df1 by (simp split: option.splits)
      qed
    qed
    then show ?thesis
      unfolding step hd using df'(1,2,3) df1 by simp
  qed
qed

lemma index_of_None_iff: "index_of x xs = None \<longleftrightarrow> x \<notin> set xs"
  by (induction xs) auto

lemma index_of_mem: "x \<in> set xs \<Longrightarrow> \<exists>j. index_of x xs = Some j"
  using index_of_None_iff[of x xs] by (cases "index_of x xs") auto

lemma index_of_append_mem: "x \<in> set xs \<Longrightarrow> index_of x (xs @ ys) = index_of x xs"
  by (induction xs) auto

lemma index_of_append_new: "x \<notin> set xs \<Longrightarrow> index_of x (xs @ [x]) = Some (length xs)"
  by (induction xs) auto

lemma index_of_inj: "index_of x xs = Some j \<Longrightarrow> index_of y xs = Some j \<Longrightarrow> x = y"
  using index_of_Some_less[of x xs j] index_of_Some_less[of y xs j] by simp

lemma assign_outcomes_pop_rows:
  assumes "index_of ''animal_id'' (columns df) = Some ia"
    and "index_of ''datetime_outcome'' (columns df) = Some jo"
  shows "assign_outcomes (columns df) (rows df) 0 d df =
           Inr \<lparr>columns = columns df, rows = pop_rows ia jo d (rows df)\<rparr>"
proof -
  from assign_outcomes_eq[OF assms, of 0 "rows df" d]
  obtain df' where df': "assign_outcomes (columns df) (rows df) 0 d df = Inr df'"
    "columns df' = columns df" "length (rows df') = length (rows df)"
    "\<forall>p < length (rows df). rows df' ! p =
        (if 0 \<le> p \<and> p < 0 + length (rows df)
         then (case fifo d (map (\<lambda>r. r ! ia) (rows df)) ! (p - 0) of
                 None \<Rightarrow> rows df ! p
               | Some t \<Rightarrow> (rows df ! p)[jo := t])
         else rows df ! p)"
    by auto
  have "rows df' = pop_rows ia jo d (rows df)"
    using df'(3,4) by (intro nth_equalityI) (simp_all add: pop_rows_def)
  then have "df' = \<lparr>columns = columns df, rows = pop_rows ia jo d (rows df)\<rparr>"
    using df'(2) by simp
  then show ?thesis using df'(1) by simp
qed

lemma dataframeD: "dataframe df \<Longrightarrow> row \<in> set (rows df) \<Longrightarrow> length row = length (columns df)"
  by (simp add: dataframe_def list_all_iff)

lemma queue_extend_empty:
  "queue (extend_dict ia it rs Map.empty) a = map (\<lambda>r. r ! it) (filter (\<lambda>r. r ! ia = a) rs)"
  by (simp add: queue_def extend_dict_def split: list.splits)

lemma outcome_times_eq:
  assumes "index_of ''animal_id'' (columns df) = Some ia" "index_of ''datetime'' (columns df) = Some it"
  shows "outcome_times df a = map (\<lambda>r. r ! it) (filter (\<lambda>r. r ! ia = a) (rows df))"
  using assms by (simp add: outcome_times_def entity_rows_def cell_at_def)

text \<open>The table after \<^verbatim>\<open>intake_data['datetime_outcome'] = pd.NaT\<close>.\<close>

lemma set_column_facts:
  assumes df: "dataframe df" and ia: "index_of ''animal_id'' (columns df) = Some ia"
  defines "df1 \<equiv> set_column df ''datetime_outcome'' Null"
  shows "\<exists>jo. index_of ''datetime_outcome'' (columns df1) = Some jo \<and> jo \<noteq> ia \<and>
           index_of ''animal_id'' (columns df1) = Some ia \<and> dataframe df1 \<and>
           length (rows df1) = length (rows df) \<and>
           (\<forall>p < length (rows df). rows df1 ! p ! jo = Null \<and> jo < length (rows df1 ! p) \<and>
               rows df1 ! p ! ia = rows df ! p ! ia \<and>
               (\<forall>j < length (columns df). j \<noteq> jo \<longrightarrow> rows df1 ! p ! j = rows df ! p ! j))"
proof (cases "index_of ''datetime_outcome'' (columns df)")
  case None
  then have notin: "''datetime_outcome'' \<notin> set (columns df)" by (simp add: index_of_None_iff)
  have d1: "df1 = \<lparr>columns = columns df @ [''datetime_outcome''], rows = map (\<lambda>row. row @ [Null]) (rows df)\<rparr>"
    using None by (simp add: df1_def set_column_def)
  have ial: "ia < length (columns df)" using index_of_Some_less[OF ia] by simp
  have "index_of ''datetime_outcome'' (columns df1) = Some (length (columns df))"
    using notin by (simp add: d1 index_of_append_new)
  moreover have "length (columns df) \<noteq> ia" using ial by simp
  moreover have "index_of ''animal_id'' (columns df1) = Some ia"
    using ia index_of_None_iff[of "''animal_id''" "columns df"] by (simp add: d1 index_of_append_mem)
  moreover have "dataframe df1"
    using df notin by (auto simp: d1 dataframe_def list_all_iff)
  moreover have "length (rows df1) = length (rows df)" by (simp add: d1)
  moreover have "rows df1 ! p ! length (columns df) = Null \<and> length (columns df) < length (rows df1 ! p) \<and>
        rows df1 ! p ! ia = rows df ! p ! ia \<and>
        (\<forall>j < length (columns df). j \<noteq> length (columns df) \<longrightarrow> rows df1 ! p ! j = rows df ! p ! j)"
    if "p < length (rows df)" for p
  proof -
    have "length (rows df ! p) = length (columns df)"
      using dataframeD[OF df] that by simp
    then show ?thesis using that ial by (simp add: d1 nth_append)
  qed
  ultimately show ?thesis by (intro exI[of _ "length (columns df)"]) simp
next
  case (Some jo)
  have d1: "df1 = \<lparr>columns = columns df, rows = map (\<lambda>row. row[jo := Null]) (rows df)\<rparr>"
    using Some by (simp add: df1_def set_column_def)
  have jol: "jo < length (columns df)" using index_of_Some_less[OF Some] by simp
  have "index_of ''datetime_outcome'' (columns df1) = Some jo" using Some by (simp add: d1)
  moreover have "jo \<noteq> ia" using index_of_inj[OF Some] ia by auto
  moreover have "index_of ''animal_id'' (columns df1) = Some ia" using ia by (simp add: d1)
  moreover have "dataframe df1" using df by (auto simp: d1 dataframe_def list_all_iff)
  moreover have "length (rows df1) = length (rows df)" by (simp add: d1)
  moreover have "rows df1 ! p ! jo = Null \<and> jo < length (rows df1 ! p) \<and>
        rows df1 ! p ! ia = rows df ! p ! ia \<and>
        (\<forall>j < length (columns df). j \<noteq> jo \<longrightarrow> rows df1 ! p ! j = rows df ! p ! j)"
    if "p < length (rows df)" for p
  proof -
    have "length (rows df ! p) = length (columns df)"
      using dataframeD[OF df] that by simp
    then show ?thesis using that jol \<open>jo \<noteq> ia\<close> by (simp add: d1)
  qed
  ultimately show ?thesis by (intro exI[of _ jo]) simp
qed

lemma merge_intake_n_outcome_eq:
  assumes "index_of ''animal_id'' (columns (outcome_data s)) = Some iao"
    and "index_of ''datetime'' (columns (outcome_data s)) = Some ito"
    and "index_of ''animal_id'' (columns (set_column (intake_data s) ''datetime_outcome'' Null)) = Some ia"
    and "index_of ''datetime_outcome'' (columns (set_column (intake_data s) ''datetime_outcome'' Null)) = Some jo"
  shows "merge_intake_n_outcome s =
           (s\<lparr>intake_data := correlated ia jo iao ito (intake_data s) (outcome_data s)\<rparr>,
            pd_merge_left (correlated ia jo iao ito (intake_data s) (outcome_data s)) (outcome_data s)
              [''animal_id'', ''datetime_outcome''] [''animal_id'', ''datetime'']
              (''_intake'', ''_outcome''))"
proof -
  define I1 where "I1 = set_column (intake_data s) ''datetime_outcome'' Null"
  have b: "build_outcome_dict (columns (outcome_data s)) (rows (outcome_data s)) Map.empty =
             Inr (extend_dict iao ito (rows (outcome_data s)) Map.empty)"
    by (rule build_outcome_dict_eq[OF assms(1,2)])
  have a: "assign_outcomes (columns I1) (rows I1) 0 (extend_dict iao ito (rows (outcome_data s)) Map.empty) I1 =
             Inr (correlated ia jo iao ito (intake_data s) (outcome_data s))"
    unfolding correlated_def I1_def
    by (rule assign_outcomes_pop_rows[OF assms(3,4)])
  show ?thesis
    unfolding merge_intake_n_outcome_def b
    using a by (simp add: I1_def Let_def)
qed

lemma map_filter_zip_fst:
  "map snd (filter (\<lambda>p. fst p = a) (zip (map f rs) ms)) =
   map snd (filter (\<lambda>p. f (fst p) = a) (zip rs ms))"
proof (induction rs arbitrary: ms)
  case Nil
  show ?case by simp
next
  case (Cons r rs)
  show ?case by (cases ms) (simp_all add: Cons.IH)
qed

lemma length_filter_map_nth:
  assumes "length xs = length ys" "\<forall>p < length ys. f (xs ! p) = g (ys ! p)"
  shows "length (filter (\<lambda>x. f x = a) xs) = length (filter (\<lambda>y. g y = a) ys)"
  using assms
proof (induction xs ys rule: list_induct2)
  case Nil
  show ?case by simp
next
  case (Cons x xs y ys)
  have "f x = g y" using Cons.prems by auto
  moreover have "\<forall>p < length ys. f (xs ! p) = g (ys ! p)" using Cons.prems by auto
  ultimately show ?case using Cons.IH by simp
qed

lemma matched_pop_rows:
  assumes "jo \<noteq> ia" "\<forall>r \<in> set rs. jo < length r \<and> r ! jo = Null"
  shows "map (\<lambda>r. r ! jo) (filter (\<lambda>r. r ! ia = a) (pop_rows ia jo d rs)) =
         map (\<lambda>m. case m of None \<Rightarrow> Null | Some t \<Rightarrow> t)
             (map snd (filter (\<lambda>p. fst p ! ia = a) (zip rs (fifo d (map (\<lambda>r. r ! ia) rs)))))"
proof -
  have gen: "map (\<lambda>r. r ! jo) (filter (\<lambda>r. r ! ia = a)
               (map (\<lambda>(row, m). case m of None \<Rightarrow> row | Some t \<Rightarrow> row[jo := t]) zs)) =
             map (\<lambda>m. case m of None \<Rightarrow> Null | Some t \<Rightarrow> t)
               (map snd (filter (\<lambda>p. fst p ! ia = a) zs))"
    if "\<forall>z \<in> set zs. jo < length (fst z) \<and> fst z ! jo = Null" for zs :: "(cell list \<times> cell option) list"
    using that assms(1)
    by (induction zs) (auto split: option.splits)
  have "\<forall>z \<in> set (zip rs (fifo d (map (\<lambda>r. r ! ia) rs))). jo < length (fst z) \<and> fst z ! jo = Null"
    using assms(2) by (auto dest: set_zip_leftD)
  from gen[OF this] show ?thesis by (simp add: pop_rows_def)
qed

lemma intake_eventsD:
  assumes "intake_events df"
  shows "dataframe df" and "\<exists>ia. index_of ''animal_id'' (columns df) = Some ia"
  using assms index_of_mem[of "''animal_id''" "columns df"] by (simp_all add: intake_events_def)

lemma outcome_eventsD:
  assumes "outcome_events df"
  shows "dataframe df" and "\<exists>ia. index_of ''animal_id'' (columns df) = Some ia"
    and "\<exists>it. index_of ''datetime'' (columns df) = Some it"
  using assms index_of_mem[of "''animal_id''" "columns df"] index_of_mem[of "''datetime''" "columns df"]
  by (simp_all add: outcome_events_def)

lemma matched_times_correlated:
  assumes df: "dataframe intake" and ia: "index_of ''animal_id'' (columns intake) = Some ia"
    and iao: "index_of ''animal_id'' (columns outcome) = Some iao"
    and ito: "index_of ''datetime'' (columns outcome) = Some ito"
    and jo: "index_of ''datetime_outcome'' (columns (set_column intake ''datetime_outcome'' Null)) = Some jo"
  shows "matched_times (correlated ia jo iao ito intake outcome) a =
         take (length (entity_rows intake a)) (outcome_times outcome a) @
         replicate (length (entity_rows intake a) - length (outcome_times outcome a)) Null"
proof -
  define I1 where "I1 = set_column intake ''datetime_outcome'' Null"
  define d where "d = extend_dict iao ito (rows outcome) Map.empty"
  from set_column_facts[OF df ia] jo
  have f: "jo \<noteq> ia" "index_of ''animal_id'' (columns I1) = Some ia"
    "length (rows I1) = length (rows intake)"
    "\<forall>p < length (rows intake). rows I1 ! p ! jo = Null \<and> jo < length (rows I1 ! p) \<and>
               rows I1 ! p ! ia = rows intake ! p ! ia"
    unfolding I1_def by auto
  have nulls: "\<forall>r \<in> set (rows I1). jo < length r \<and> r ! jo = Null"
    using f(3,4) by (auto simp: in_set_conv_nth)
  have cnt: "length (filter (\<lambda>x. x = a) (map (\<lambda>r. r ! ia) (rows I1))) = length (entity_rows intake a)"
  proof -
    have "length (filter (\<lambda>r. r ! ia = a) (rows I1)) = length (filter (\<lambda>r. r ! ia = a) (rows intake))"
      using f(3,4) by (intro length_filter_map_nth) simp_all
    moreover have "filter (\<lambda>x. x = a) (map (\<lambda>r. r ! ia) (rows I1)) = map (\<lambda>r. r ! ia) (filter (\<lambda>r. r ! ia = a) (rows I1))"
      by (simp add: filter_map o_def)
    ultimately show ?thesis using ia by (simp add: entity_rows_def cell_at_def)
  qed
  have q: "queue d a = outcome_times outcome a"
    unfolding d_def queue_extend_empty outcome_times_eq[OF iao ito] ..
  have "matched_times (correlated ia jo iao ito intake outcome) a =
          map (\<lambda>r. r ! jo) (filter (\<lambda>r. r ! ia = a) (pop_rows ia jo d (rows I1)))"
    using f(2) jo by (simp add: matched_times_def entity_rows_def cell_at_def correlated_def I1_def d_def)
  also have "\<dots> = map (\<lambda>m. case m of None \<Rightarrow> Null | Some t \<Rightarrow> t)
             (map snd (filter (\<lambda>p. fst p ! ia = a) (zip (rows I1) (fifo d (map (\<lambda>r. r ! ia) (rows I1))))))"
    by (rule matched_pop_rows[OF f(1) nulls])
  also have "\<dots> = map (\<lambda>m. case m of None \<Rightarrow> Null | Some t \<Rightarrow> t)
             (map snd (filter (\<lambda>p. fst p = a) (zip (map (\<lambda>r. r ! ia) (rows I1)) (fifo d (map (\<lambda>r. r ! ia) (rows I1))))))"
    by (simp only: map_filter_zip_fst)
  also have "\<dots> = take (length (entity_rows intake a)) (outcome_times outcome a) @
         replicate (length (entity_rows intake a) - length (outcome_times outcome a)) Null"
    unfolding fifo_entity cnt q by (simp add: o_def)
  finally show ?thesis .
qed

lemma length_pop_rows [simp]: "length (pop_rows ia jo d rs) = length rs"
  by (simp add: pop_rows_def)

lemma pop_rows_nth:
  "p < length rs \<Longrightarrow>
     pop_rows ia jo d rs ! p =
       (case fifo d (map (\<lambda>r. r ! ia) rs) ! p of None \<Rightarrow> rs ! p | Some t \<Rightarrow> (rs ! p)[jo := t])"
  by (simp add: pop_rows_def)

lemma correlated_frame:
  assumes df: "dataframe intake" and ia: "index_of ''animal_id'' (columns intake) = Some ia"
    and jo: "index_of ''datetime_outcome'' (columns (set_column intake ''datetime_outcome'' Null)) = Some jo"
  shows "length (rows (correlated ia jo iao ito intake outcome)) = length (rows intake)"
    and "\<forall>p < length (rows intake). \<forall>j < length (columns intake). j \<noteq> jo \<longrightarrow>
           rows (correlated ia jo iao ito intake outcome) ! p ! j = rows intake ! p ! j"
proof -
  define I1 where "I1 = set_column intake ''datetime_outcome'' Null"
  from set_column_facts[OF df ia] jo
  have f: "length (rows I1) = length (rows intake)"
    "\<forall>p < length (rows intake). \<forall>j < length (columns intake). j \<noteq> jo \<longrightarrow> rows I1 ! p ! j = rows intake ! p ! j"
    unfolding I1_def by auto
  show "length (rows (correlated ia jo iao ito intake outcome)) = length (rows intake)"
    using f(1) by (simp add: correlated_def I1_def)
  show "\<forall>p < length (rows intake). \<forall>j < length (columns intake). j \<noteq> jo \<longrightarrow>
           rows (correlated ia jo iao ito intake outcome) ! p ! j = rows intake ! p ! j"
  proof (intro allI impI)
    fix p j assume p: "p < length (rows intake)" and j: "j < length (columns intake)" "j \<noteq> jo"
    have "rows (correlated ia jo iao ito intake outcome) ! p ! j = rows I1 ! p ! j"
      using p f(1) j(2) by (simp add: correlated_def I1_def[symmetric] pop_rows_nth split: option.splits)
    then show "rows (correlated ia jo iao ito intake outcome) ! p ! j = rows intake ! p ! j"
      using f(2) p j by simp
  qed
qed

lemma merge_state:
  assumes "intake_events (intake_data s)" "outcome_events (outcome_data s)"
  shows "\<exists>ia jo iao ito.
           index_of ''animal_id'' (columns (intake_data s)) = Some ia \<and>
           index_of ''datetime_outcome'' (columns (set_column (intake_data s) ''datetime_outcome'' Null)) = Some jo \<and>
           index_of ''animal_id'' (columns (outcome_data s)) = Some iao \<and>
           index_of ''datetime'' (columns (outcome_data s)) = Some ito \<and> jo \<noteq> ia \<and>
           merge_intake_n_outcome s =
             (s\<lparr>intake_data := correlated ia jo iao ito (intake_data s) (outcome_data s)\<rparr>,
              pd_merge_left (correlated ia jo iao ito (intake_data s) (outcome_data s)) (outcome_data s)
                [''animal_id'', ''datetime_outcome''] [''animal_id'', ''datetime'']
                (''_intake'', ''_outcome''))"
proof -
  from intake_eventsD[OF assms(1)] obtain ia where
    df: "dataframe (intake_data s)" and ia: "index_of ''animal_id'' (columns (intake_data s)) = Some ia"
    by auto
  from outcome_eventsD[OF assms(2)] obtain iao ito where
    iao: "index_of ''animal_id'' (columns (outcome_data s)) = Some iao"
    and ito: "index_of ''datetime'' (columns (outcome_data s)) = Some ito"
    by auto
  from set_column_facts[OF df ia] obtain jo where
    jo: "index_of ''datetime_outcome'' (columns (set_column (intake_data s) ''datetime_outcome'' Null)) = Some jo"
    and ne: "jo \<noteq> ia"
    and ia1: "index_of ''animal_id'' (columns (set_column (intake_data s) ''datetime_outcome'' Null)) = Some ia"
    by auto
  show ?thesis
    using merge_intake_n_outcome_eq[OF iao ito ia1 jo] ia jo iao ito ne by blast
qed

lemma outcome_data_merge: "outcome_data (fst (merge_intake_n_outcome s)) = outcome_data s"
  by (simp add: merge_intake_n_outcome_def Let_def split: sum.splits)

lemma columns_set_column:
  "columns (set_column df name v) = (if name \<in> set (columns df) then columns df else columns df @ [name])"
  using index_of_None_iff[of name "columns df"]
  by (auto simp: set_column_def split: option.splits)

lemma list_update_same_Null: "jo < length r \<Longrightarrow> r ! jo = v \<Longrightarrow> r[jo := v] = r"
  using list_update_id[of r jo] by simp

lemma set_column_correlated:
  assumes df: "dataframe intake" and ia: "index_of ''animal_id'' (columns intake) = Some ia"
    and jo: "index_of ''datetime_outcome'' (columns (set_column intake ''datetime_outcome'' Null)) = Some jo"
  shows "set_column (correlated ia jo iao ito intake outcome) ''datetime_outcome'' Null =
         set_column intake ''datetime_outcome'' Null"
proof -
  define I1 where "I1 = set_column intake ''datetime_outcome'' Null"
  define d where "d = extend_dict iao ito (rows outcome) Map.empty"
  from set_column_facts[OF df ia] jo
  have f: "length (rows I1) = length (rows intake)"
    "\<forall>p < length (rows intake). rows I1 ! p ! jo = Null \<and> jo < length (rows I1 ! p)"
    unfolding I1_def by auto
  have c: "correlated ia jo iao ito intake outcome = \<lparr>columns = columns I1, rows = pop_rows ia jo d (rows I1)\<rparr>"
    by (simp add: correlated_def I1_def d_def)
  have "map (\<lambda>row. row[jo := Null]) (pop_rows ia jo d (rows I1)) = rows I1"
  proof (rule nth_equalityI)
    show "length (map (\<lambda>row. row[jo := Null]) (pop_rows ia jo d (rows I1))) = length (rows I1)" by simp
  next
    fix p assume "p < length (map (\<lambda>row. row[jo := Null]) (pop_rows ia jo d (rows I1)))"
    then have p: "p < length (rows I1)" by simp
    have "(rows I1 ! p)[jo := Null] = rows I1 ! p"
      using f p list_update_same_Null[of jo "rows I1 ! p" Null] by simp
    then show "map (\<lambda>row. row[jo := Null]) (pop_rows ia jo d (rows I1)) ! p = rows I1 ! p"
      using p by (simp add: pop_rows_nth split: option.splits)
  qed
  moreover have "index_of ''datetime_outcome'' (columns I1) = Some jo"
    using jo by (simp add: I1_def)
  ultimately have "set_column \<lparr>columns = columns I1, rows = pop_rows ia jo d (rows I1)\<rparr> ''datetime_outcome'' Null = I1"
    by (simp add: set_column_def)
  then show ?thesis by (simp add: c I1_def)
qed

lemma merge_intake_n_outcome_cong:
  assumes "outcome_data s' = outcome_data s"
    and "set_column (intake_data s') ''datetime_outcome'' Null = set_column (intake_data s) ''datetime_outcome'' Null"
    and "build_outcome_dict (columns (outcome_data s)) (rows (outcome_data s)) Map.empty = Inr d"
  shows "merge_intake_n_outcome s' = merge_intake_n_outcome s"
proof -
  have eq: "s'\<lparr>intake_data := X\<rparr> = s\<lparr>intake_data := X\<rparr>" for X
    using assms(1) by (cases s, cases s') simp
  show ?thesis
    unfolding merge_intake_n_outcome_def assms(1) assms(2) assms(3) by (simp add: eq Let_def)
qed

lemma join_indexers_mem:
  "(i, m) \<in> set (join_indexers lkeys rkeys) \<longleftrightarrow>
     i < length lkeys \<and>
     (case m of None \<Rightarrow> matches rkeys (lkeys ! i) = []
              | Some j \<Rightarrow> j \<in> set (matches rkeys (lkeys ! i)))"
  by (cases m) (auto simp: join_indexers_def)

lemma matches_mem: "j \<in> set (matches rkeys k) \<longleftrightarrow> j < length rkeys \<and> rkeys ! j = k"
  by (auto simp: matches_def)

lemma matches_Nil: "matches rkeys k = [] \<longleftrightarrow> k \<notin> set rkeys"
  by (auto simp: matches_def filter_empty_conv in_set_conv_nth)

lemma length_concat_ge:
  "(\<And>x. x \<in> set xs \<Longrightarrow> 1 \<le> length (g x)) \<Longrightarrow> length xs \<le> length (concat (map g xs))"
proof (induction xs)
  case Nil
  show ?case by simp
next
  case (Cons x xs)
  have "1 \<le> length (g x)" using Cons.prems by simp
  moreover have "length xs \<le> length (concat (map g xs))" using Cons by simp
  ultimately show ?case by simp
qed

lemma length_concat_eq:
  "(\<And>x. x \<in> set xs \<Longrightarrow> length (g x) = 1) \<Longrightarrow> length (concat (map g xs)) = length xs"
  by (induction xs) simp_all

lemma length_join_indexers_ge: "length lkeys \<le> length (join_indexers lkeys rkeys)"
proof -
  have "length [0..<length lkeys] \<le> length (join_indexers lkeys rkeys)"
    unfolding join_indexers_def
    by (rule length_concat_ge) (simp add: Suc_leI)
  then show ?thesis by simp
qed

lemma length_filter_le_1:
  "distinct xs \<Longrightarrow> (\<And>a b. a \<in> set xs \<Longrightarrow> b \<in> set xs \<Longrightarrow> P a \<Longrightarrow> P b \<Longrightarrow> a = b) \<Longrightarrow>
     length (filter P xs) \<le> 1"
proof (induction xs)
  case Nil
  show ?case by simp
next
  case (Cons x xs)
  show ?case
  proof (cases "P x")
    case True
    have "filter P xs = []"
    proof (rule ccontr)
      assume "filter P xs \<noteq> []"
      then obtain y where y: "y \<in> set xs" "P y"
        by (auto simp: filter_empty_conv)
      then have "x = y" using Cons.prems(2)[of x y] True by simp
      then show False using Cons.prems(1) y(1) by simp
    qed
    then show ?thesis using True by simp
  next
    case False
    then show ?thesis using Cons by simp
  qed
qed

lemma length_matches_distinct: "distinct rkeys \<Longrightarrow> length (matches rkeys k) \<le> 1"
  unfolding matches_def
  by (rule length_filter_le_1) (auto simp: nth_eq_iff_index_eq)

lemma length_join_indexers_distinct:
  assumes "distinct rkeys"
  shows "length (join_indexers lkeys rkeys) = length lkeys"
proof -
  have one: "length (if matches rkeys k = [] then [(i, None)] else map (\<lambda>j. (i, Some j)) (matches rkeys k)) = 1"
    for i :: nat and k
    using length_matches_distinct[OF assms, of k] by (cases "matches rkeys k") simp_all
  have "length (join_indexers lkeys rkeys) = length [0..<length lkeys]"
    unfolding join_indexers_def by (rule length_concat_eq) (rule one)
  then show ?thesis by simp
qed

lemma drop_labels_Nil: "length row = length cs \<Longrightarrow> drop_labels [] cs row = row"
  by (simp add: drop_labels_def)

lemma length_drop_labels:
  "length row = length cs \<Longrightarrow>
     length (drop_labels gone cs row) = length (filter (\<lambda>c. c \<notin> set gone) cs)"
proof (induction cs arbitrary: row)
  case Nil
  then show ?case by (simp add: drop_labels_def)
next
  case (Cons c cs)
  then obtain v vs where row: "row = v # vs" by (cases row) auto
  then have "length vs = length cs" using Cons.prems by simp
  from Cons.IH[OF this] show ?case by (simp add: row drop_labels_def)
qed

lemma index_of_filter: "index_of c (filter P cs) = Some k \<Longrightarrow> P c"
proof -
  assume "index_of c (filter P cs) = Some k"
  from index_of_Some_less[OF this] have "c \<in> set (filter P cs)"
    using nth_mem[of k "filter P cs"] by simp
  then show "P c" by simp
qed

lemma drop_labels_nth:
  "length row = length cs \<Longrightarrow> index_of c (filter (\<lambda>c. c \<notin> set gone) cs) = Some k \<Longrightarrow>
     index_of c cs = Some j \<Longrightarrow> drop_labels gone cs row ! k = row ! j"
proof (induction cs arbitrary: row k j)
  case Nil
  then show ?case by simp
next
  case (Cons x xs)
  then obtain v vs where row: "row = v # vs" by (cases row) auto
  then have len: "length vs = length xs" using Cons.prems by simp
  have cin: "c \<notin> set gone"
    using index_of_filter[OF Cons.prems(2)] by simp
  show ?case
  proof (cases "c = x")
    case True
    then show ?thesis using Cons.prems(2,3) cin by (simp add: row drop_labels_def)
  next
    case False
    then obtain j' where j': "index_of c xs = Some j'" "j = Suc j'"
      using Cons.prems(3) by auto
    show ?thesis
    proof (cases "x \<in> set gone")
      case True
      then have "index_of c (filter (\<lambda>c. c \<notin> set gone) xs) = Some k"
        using Cons.prems(2) by simp
      from Cons.IH[OF len this j'(1)] show ?thesis
        using True by (simp add: row drop_labels_def j'(2))
    next
      case notgone: False
      then obtain k' where k': "index_of c (filter (\<lambda>c. c \<notin> set gone) xs) = Some k'" "k = Suc k'"
        using Cons.prems(2) False by auto
      from Cons.IH[OF len k'(1) j'(1)] show ?thesis
        using notgone by (simp add: row drop_labels_def j'(2) k'(2))
    qed
  qed
qed

lemma count_distinct:
  "distinct xs \<Longrightarrow> x \<in> set xs \<Longrightarrow> length (filter (\<lambda>c. c = x) xs) = 1"
proof (induction xs)
  case Nil
  then show ?case by simp
next
  case (Cons y ys)
  show ?case
  proof (cases "y = x")
    case True
    then have "x \<notin> set ys" using Cons.prems(1) by simp
    then have "filter (\<lambda>c. c = x) ys = []" by (auto simp: filter_empty_conv)
    then show ?thesis using True by simp
  next
    case False
    then show ?thesis using Cons by simp
  qed
qed

text \<open>The two labels \<^verbatim>\<open>datetime_outcome\<close> of the result.\<close>

lemma overlap_labels:
  assumes ok: "items_overlap_with_suffix lcols rcols (s1, s2) = Inr (llabels, rlabels)"
    and x: "index_of x lcols = Some p" "x \<notin> set rcols"
    and y: "index_of y rcols = Some k" "y \<in> set lcols" "y @ s2 = x"
  shows "p < length llabels \<and> llabels ! p = x \<and> k < length rlabels \<and> rlabels ! k = x \<and>
         length llabels = length lcols \<and> length rlabels = length rcols \<and>
         length (filter (\<lambda>c. c = x) (llabels @ rlabels)) = 2"
proof -
  have l: "llabels = map (\<lambda>c. if c \<in> set rcols then c @ s1 else c) lcols"
    and r: "rlabels = map (\<lambda>c. if c \<in> set lcols then c @ s2 else c) rcols"
    and d: "distinct llabels" "distinct rlabels"
    using ok by (auto simp: items_overlap_with_suffix_def Let_def split: if_splits)
  have p: "p < length lcols" "lcols ! p = x" using index_of_Some_less[OF x(1)] by simp_all
  have k: "k < length rcols" "rcols ! k = y" using index_of_Some_less[OF y(1)] by simp_all
  have lp: "llabels ! p = x" using p x(2) by (simp add: l)
  have rk: "rlabels ! k = x" using k y(2,3) by (simp add: r)
  have "x \<in> set llabels" using nth_mem[of p llabels] lp p(1) by (simp add: l)
  then have c1: "length (filter (\<lambda>c. c = x) llabels) = 1" using d(1) by (rule count_distinct[rotated])
  have "x \<in> set rlabels" using nth_mem[of k rlabels] rk k(1) by (simp add: r)
  then have c2: "length (filter (\<lambda>c. c = x) rlabels) = 1" using d(2) by (rule count_distinct[rotated])
  show ?thesis using p k lp rk c1 c2 by (simp add: l r)
qed

lemma dataframe_correlated:
  assumes df: "dataframe intake" and ia: "index_of ''animal_id'' (columns intake) = Some ia"
    and jo: "index_of ''datetime_outcome'' (columns (set_column intake ''datetime_outcome'' Null)) = Some jo"
  shows "dataframe (correlated ia jo iao ito intake outcome)"
proof -
  define I1 where "I1 = set_column intake ''datetime_outcome'' Null"
  have d1: "dataframe I1" using set_column_facts[OF df ia] by (auto simp: I1_def)
  have "length row = length (columns I1)"
    if "row \<in> set (pop_rows ia jo d (rows I1))" for row d
  proof -
    from that obtain p where p: "p < length (rows I1)" "row = pop_rows ia jo d (rows I1) ! p"
      by (auto simp: in_set_conv_nth)
    have "length (rows I1 ! p) = length (columns I1)"
      using dataframeD[OF d1] p(1) by simp
    then show ?thesis using p by (simp add: pop_rows_nth split: option.splits)
  qed
  then show ?thesis
    using d1 by (simp add: dataframe_def list_all_iff correlated_def I1_def[symmetric])
qed

lemma assigned_in_queue:
  assumes df: "dataframe intake" and ia: "index_of ''animal_id'' (columns intake) = Some ia"
    and iao: "index_of ''animal_id'' (columns outcome) = Some iao"
    and ito: "index_of ''datetime'' (columns outcome) = Some ito"
    and jo: "index_of ''datetime_outcome'' (columns (set_column intake ''datetime_outcome'' Null)) = Some jo"
    and row: "row \<in> set (rows (correlated ia jo iao ito intake outcome))"
  shows "row ! jo = Null \<or>
         (\<exists>r \<in> set (rows outcome). r ! iao = row ! ia \<and> r ! ito = row ! jo)"
proof -
  define I' where "I' = correlated ia jo iao ito intake outcome"
  have c: "index_of ''animal_id'' (columns I') = Some ia" "index_of ''datetime_outcome'' (columns I') = Some jo"
    using set_column_facts[OF df ia] jo by (auto simp: I'_def correlated_def)
  have "row \<in> set (entity_rows I' (row ! ia))"
    using row c by (simp add: entity_rows_def cell_at_def I'_def)
  then have "row ! jo \<in> set (matched_times I' (row ! ia))"
    using c by (auto simp: matched_times_def cell_at_def)
  then have "row ! jo \<in> set (outcome_times outcome (row ! ia)) \<or> row ! jo = Null"
    unfolding I'_def matched_times_correlated[OF df ia iao ito jo]
    by (auto dest: in_set_takeD)
  then show ?thesis
    by (auto simp: outcome_times_eq[OF iao ito])
qed

lemma key_positions_two:
  "index_of k1 cs = Some j1 \<Longrightarrow> index_of k2 cs = Some j2 \<Longrightarrow> key_positions cs [k1, k2] = Inr [j1, j2]"
  by simp

lemma common_keys_call:
  "common_keys [''animal_id'', ''datetime_outcome''] [''animal_id'', ''datetime''] = [''animal_id'']"
  by (simp add: common_keys_def)

lemma pd_merge_left_Inr:
  assumes "pd_merge_left left right left_on right_on suffixes = Inr out"
  shows "\<exists>ix llabels rlabels.
           merge_indexers left right left_on right_on = Inr ix \<and>
           items_overlap_with_suffix
             (filter (\<lambda>c. c \<notin> set (left_drop left left_on right_on)) (columns left))
             (filter (\<lambda>c. c \<notin> set (right_drop left left_on right_on)) (columns right)) suffixes =
             Inr (llabels, rlabels) \<and>
           columns out = llabels @ rlabels \<and>
           rows out = map (join_row left right (left_drop left left_on right_on)
                             (right_drop left left_on right_on)) ix"
  using assms
  by (auto simp: pd_merge_left_def Let_def split: sum.splits prod.splits)

lemma get_column_mem:
  "c \<in> set (columns df) \<Longrightarrow> get_column df c = Inr (map (cell_at df c) (rows df))"
  using index_of_mem[of c "columns df"] by (auto simp: get_column_def cell_at_def)

lemma sub_columns_datetime:
  assumes "length xs = length ys"
    and "\<forall>x \<in> set xs. is_timestamp x \<or> x = Null" and "\<forall>y \<in> set ys. is_timestamp y \<or> y = Null"
  shows "\<exists>ds. sub_columns xs ys = Inr ds \<and> length ds = length xs \<and>
           (\<forall>k < length xs.
              ds ! k = (case (xs ! k, ys ! k) of
                          (Timestamp e, Timestamp b) \<Rightarrow> Some (e - b)
                        | _ \<Rightarrow> None))"
  using assms
proof (induction xs ys rule: list_induct2)
  case Nil
  show ?case by simp
next
  case (Cons x xs y ys)
  then obtain ds where ds: "sub_columns xs ys = Inr ds" "length ds = length xs"
    "\<forall>k < length xs. ds ! k = (case (xs ! k, ys ! k) of
                          (Timestamp e, Timestamp b) \<Rightarrow> Some (e - b)
                        | _ \<Rightarrow> None)"
    by auto
  have x: "is_timestamp x \<or> x = Null" and y: "is_timestamp y \<or> y = Null"
    using Cons.prems by simp_all
  then obtain d where d: "sub_cell x y = Inr d"
    "d = (case (x, y) of (Timestamp e, Timestamp b) \<Rightarrow> Some (e - b) | _ \<Rightarrow> None)"
    by (cases x; cases y) auto
  have "sub_columns (x # xs) (y # ys) = Inr (d # ds)" using d(1) ds(1) by simp
  moreover have "\<forall>k < length (x # xs). (d # ds) ! k =
        (case ((x # xs) ! k, (y # ys) ! k) of
           (Timestamp e, Timestamp b) \<Rightarrow> Some (e - b)
         | _ \<Rightarrow> None)"
    using d(2) ds(3) by (auto simp: nth_Cons split: nat.splits)
  ultimately show ?case using ds(2) by simp
qed

lemma length_dt_days [simp]: "length (dt_days ds) = length ds"
  by (simp add: dt_days_def)

lemma dt_days_nth:
  "k < length ds \<Longrightarrow>
     (ds ! k = None \<longrightarrow> dt_days ds ! k = Null) \<and>
     (\<forall>n. ds ! k = Some n \<longrightarrow>
        dt_days ds ! k = Integer (n div day_ns) \<or> dt_days ds ! k = Decimal (of_int (n div day_ns)))"
  by (auto simp: dt_days_def)

lemma length_set_column_values:
  "length vs = length (rows df) \<Longrightarrow> length (rows (set_column_values df c vs)) = length (rows df)"
  by (simp add: set_column_values_def split: option.splits)

lemma get_set_column_values:
  assumes "dataframe df" "length vs = length (rows df)"
  shows "get_column (set_column_values df c vs) c = Inr vs"
proof (cases "index_of c (columns df)")
  case None
  then have notin: "c \<notin> set (columns df)" by (simp add: index_of_None_iff)
  have "map (\<lambda>row. row ! length (columns df)) (map (\<lambda>(row, v). row @ [v]) (zip (rows df) vs)) = vs"
  proof (rule nth_equalityI)
    show "length (map (\<lambda>row. row ! length (columns df)) (map (\<lambda>(row, v). row @ [v]) (zip (rows df) vs))) = length vs"
      using assms(2) by simp
  next
    fix k assume "k < length (map (\<lambda>row. row ! length (columns df)) (map (\<lambda>(row, v). row @ [v]) (zip (rows df) vs)))"
    then have k: "k < length (rows df)" using assms(2) by simp
    then have "length (rows df ! k) = length (columns df)"
      using dataframeD[OF assms(1)] by simp
    then show "map (\<lambda>row. row ! length (columns df)) (map (\<lambda>(row, v). row @ [v]) (zip (rows df) vs)) ! k = vs ! k"
      using k assms(2) by (simp add: nth_append)
  qed
  then show ?thesis
    using None notin by (simp add: get_column_def set_column_values_def index_of_append_new)
next
  case (Some j)
  have jl: "j < length (columns df)" using index_of_Some_less[OF Some] by simp
  have "map (\<lambda>row. row ! j) (map (\<lambda>(row, v). row[j := v]) (zip (rows df) vs)) = vs"
  proof (rule nth_equalityI)
    show "length (map (\<lambda>row. row ! j) (map (\<lambda>(row, v). row[j := v]) (zip (rows df) vs))) = length vs"
      using assms(2) by simp
  next
    fix k assume "k < length (map (\<lambda>row. row ! j) (map (\<lambda>(row, v). row[j := v]) (zip (rows df) vs)))"
    then have k: "k < length (rows df)" using assms(2) by simp
    then have "length (rows df ! k) = length (columns df)"
      using dataframeD[OF assms(1)] by simp
    then show "map (\<lambda>row. row ! j) (map (\<lambda>(row, v). row[j := v]) (zip (rows df) vs)) ! k = vs ! k"
      using k assms(2) jl by simp
  qed
  then show ?thesis
    using Some by (simp add: get_column_def set_column_values_def)
qed

lemma rint_near: "\<bar>of_int (rint x) - x\<bar> \<le> 1 / 2"
proof -
  have "of_int \<lfloor>x\<rfloor> \<le> x" "x < of_int \<lfloor>x\<rfloor> + 1" by linarith+
  then show ?thesis by (auto simp: rint_def abs_le_iff)
qed

lemma round1_near: "\<exists>n. round1 x = of_int n / 10 \<and> \<bar>of_int n / 10 - x\<bar> \<le> 1 / 20"
proof -
  have "\<bar>of_int (rint (x * 10)) - x * 10\<bar> \<le> 1 / 2" by (rule rint_near)
  then have "\<bar>of_int (rint (x * 10)) / 10 - x\<bar> \<le> 1 / 20"
    by (simp add: abs_le_iff field_simps)
  then show ?thesis unfolding round1_def by blast
qed

lemma div_day_ns: "(n div day_ns) * day_ns \<le> n \<and> n < (n div day_ns + 1) * day_ns"
proof -
  have pos: "0 < day_ns" by (simp add: day_ns_def)
  define q where "q = n div day_ns"
  define r where "r = n mod day_ns"
  have n: "n = q * day_ns + r" by (simp add: q_def r_def)
  have "0 \<le> r" "r < day_ns" using pos by (simp_all add: r_def)
  then have "q * day_ns \<le> n \<and> n < (q + 1) * day_ns"
    unfolding n by (simp add: algebra_simps)
  then show ?thesis by (simp add: q_def)
qed

lemma calculate_time_delta_eq:
  assumes df: "dataframe df" and st: "datetime_column df start" and en: "datetime_column df end'"
  shows "\<exists>ds. length ds = length (rows df) \<and>
           (\<forall>k < length (rows df).
              ds ! k = (case (cell_at df end' (rows df ! k), cell_at df start (rows df ! k)) of
                          (Timestamp e, Timestamp b) \<Rightarrow> Some (e - b)
                        | _ \<Rightarrow> None)) \<and>
           snd (calculate_time_delta df start end' unit col_suffix) =
             Inr \<lparr>series_name =
                    (if start = ''date_of_birth''
                     then ''age_upon_'' @ col_suffix @ ''('' @ unit @ '')''
                     else ''duration('' @ unit @ '')''),
                  series_values =
                    (if start = ''date_of_birth'' \<and> unit = ''years''
                     then map years_cell (dt_days ds) else dt_days ds)\<rparr>"
proof -
  define ends where "ends = map (cell_at df end') (rows df)"
  define starts where "starts = map (cell_at df start) (rows df)"
  have ge: "get_column df end' = Inr ends" and gs: "get_column df start = Inr starts"
    using st en by (simp_all add: datetime_column_def get_column_mem ends_def starts_def)
  have "length ends = length starts" by (simp add: ends_def starts_def)
  moreover have "\<forall>x \<in> set ends. is_timestamp x \<or> x = Null"
    using en by (auto simp: datetime_column_def list_all_iff ends_def)
  moreover have "\<forall>y \<in> set starts. is_timestamp y \<or> y = Null"
    using st by (auto simp: datetime_column_def list_all_iff starts_def)
  ultimately obtain ds where ds: "sub_columns ends starts = Inr ds" "length ds = length ends"
    "\<forall>k < length ends.
        ds ! k = (case (ends ! k, starts ! k) of
                    (Timestamp e, Timestamp b) \<Rightarrow> Some (e - b)
                  | _ \<Rightarrow> None)"
    using sub_columns_datetime by blast
  define cn where "cn = (if start = ''date_of_birth''
                     then ''age_upon_'' @ col_suffix @ ''('' @ unit @ '')''
                     else ''duration('' @ unit @ '')'')"
  define col where "col = (if start = ''date_of_birth'' \<and> unit = ''years''
                     then map years_cell (dt_days ds) else dt_days ds)"
  have len: "length col = length (rows df)" using ds(2) by (simp add: col_def ends_def)
  have g: "get_column (set_column_values df cn col) cn = Inr col"
    by (rule get_set_column_values[OF df len])
  have "snd (calculate_time_delta df start end' unit col_suffix) =
          Inr \<lparr>series_name = cn, series_values = col\<rparr>"
    unfolding calculate_time_delta_def ge gs ds(1) Let_def sum.case
      cn_def[symmetric] col_def[symmetric] g
    by simp
  moreover have "length ds = length (rows df)" using ds(2) by (simp add: ends_def)
  moreover have "\<forall>k < length (rows df).
              ds ! k = (case (cell_at df end' (rows df ! k), cell_at df start (rows df ! k)) of
                          (Timestamp e, Timestamp b) \<Rightarrow> Some (e - b)
                        | _ \<Rightarrow> None)"
    using ds(3) by (simp add: ends_def starts_def)
  ultimately show ?thesis unfolding cn_def col_def by blast
qed

lemma round1_389: "round1 (of_int 389 / (36525 / 100)) = 11 / 10"
  by code_simp

lemma years_cell_days:
  assumes "c = Integer d \<or> c = Decimal (of_int d)"
  shows "years_cell c = Decimal (round1 (of_int d / (36525 / 100)))"
  using assms by auto

lemma fetch_all_eq:
  assumes "answers net urls" and "distinct (map fst urls)"
  shows "\<exists>printed' d'.
           fetch_all net urls d printed = (printed @ printed', Inr d') \<and>
           (\<forall>n. d' n = (if collected net urls n
                        then read_csv net (the (map_of urls n)) else d n)) \<and>
           (\<forall>n u c. (n, u) \<in> set urls \<and> requests_get net u = Some c \<and> c \<noteq> 200 \<longrightarrow>
                Failed_to_retrieve n c \<in> set printed')"
  using assms
proof (induction urls arbitrary: d printed)
  case Nil
  then show ?case by (simp add: collected_def)
next
  case (Cons p urls)
  obtain file_name url where p: "p = (file_name, url)" by (cases p)
  have rest: "answers net urls" "distinct (map fst urls)" and fresh: "file_name \<notin> fst ` set urls"
    using Cons.prems by (simp_all add: answers_def p)
  have nc: "\<not> collected net urls file_name"
    using fresh by (force simp: collected_def)
  have col: "collected net (p # urls) n \<longleftrightarrow>
               (n = file_name \<and> requests_get net url = Some 200) \<or> collected net urls n" for n
    by (auto simp: collected_def p)
  have mo: "n \<noteq> file_name \<Longrightarrow> map_of (p # urls) n = map_of urls n" for n
    by (simp add: p)
  have coln: "collected net urls n \<Longrightarrow> n \<noteq> file_name" for n
    using nc by auto
  from Cons.prems(1) obtain c where c: "requests_get net url = Some c"
    by (auto simp: answers_def p)
  show ?case
  proof (cases "c = 200")
    case True
    then obtain data where data: "read_csv net url = Some data"
      using Cons.prems(1) c by (auto simp: answers_def p)
    from Cons.IH[OF rest, of "d(file_name \<mapsto> data)"
        "printed @ [Successfully_get file_name (length (rows data))]"]
    obtain printed' d' where r:
      "fetch_all net urls (d(file_name \<mapsto> data))
         (printed @ [Successfully_get file_name (length (rows data))]) =
         ((printed @ [Successfully_get file_name (length (rows data))]) @ printed', Inr d')"
      "\<forall>n. d' n = (if collected net urls n
                        then read_csv net (the (map_of urls n)) else (d(file_name \<mapsto> data)) n)"
      "\<forall>n u c. (n, u) \<in> set urls \<and> requests_get net u = Some c \<and> c \<noteq> 200 \<longrightarrow>
                Failed_to_retrieve n c \<in> set printed'"
      by blast
    have 1: "fetch_all net (p # urls) d printed =
               (printed @ (Successfully_get file_name (length (rows data)) # printed'), Inr d')"
      using c True data r(1) by (simp add: p)
    have 2: "d' n = (if collected net (p # urls) n
                        then read_csv net (the (map_of (p # urls) n)) else d n)" for n
      using r(2) col[of n] c True data nc coln[of n] mo[of n] by (auto simp: p)
    have 3: "Failed_to_retrieve n cc \<in> set (Successfully_get file_name (length (rows data)) # printed')"
      if "(n, u) \<in> set (p # urls)" "requests_get net u = Some cc" "cc \<noteq> 200" for n u cc
      using that r(3) c True by (auto simp: p)
    show ?thesis using 1 2 3 by blast
  next
    case False
    from Cons.IH[OF rest, of d "printed @ [Failed_to_retrieve file_name c]"]
    obtain printed' d' where r:
      "fetch_all net urls d (printed @ [Failed_to_retrieve file_name c]) =
         ((printed @ [Failed_to_retrieve file_name c]) @ printed', Inr d')"
      "\<forall>n. d' n = (if collected net urls n
                        then read_csv net (the (map_of urls n)) else d n)"
      "\<forall>n u c. (n, u) \<in> set urls \<and> requests_get net u = Some c \<and> c \<noteq> 200 \<longrightarrow>
                Failed_to_retrieve n c \<in> set printed'"
      by blast
    have 1: "fetch_all net (p # urls) d printed =
               (printed @ (Failed_to_retrieve file_name c # printed'), Inr d')"
      using c False r(1) by (simp add: p)
    have 2: "d' n = (if collected net (p # urls) n
                        then read_csv net (the (map_of (p # urls) n)) else d n)" for n
      using r(2) col[of n] c False nc coln[of n] mo[of n] by (auto simp: p)
    have 3: "Failed_to_retrieve n cc \<in> set (Failed_to_retrieve file_name c # printed')"
      if "(n, u) \<in> set (p # urls)" "requests_get net u = Some cc" "cc \<noteq> 200" for n u cc
      using that r(3) c by (auto simp: p)
    show ?thesis using 1 2 3 by blast
  qed
qed

lemma fetch_all_raises:
  "fetch_all net urls d printed = (printed', Inl e) \<Longrightarrow>
     \<not> answers net urls \<and> e \<noteq> KeyError"
proof (induction urls arbitrary: d printed)
  case Nil
  then show ?case by simp
next
  case (Cons p urls)
  obtain file_name url where p: "p = (file_name, url)" by (cases p)
  show ?case
  proof (cases "requests_get net url")
    case None
    then show ?thesis using Cons.prems by (auto simp: p answers_def)
  next
    case (Some c)
    show ?thesis
    proof (cases "c = 200")
      case True
      show ?thesis
      proof (cases "read_csv net url")
        case None
        then show ?thesis using Cons.prems Some True by (auto simp: p answers_def)
      next
        case (Some data)
        then have "fetch_all net urls (d(file_name \<mapsto> data))
                     (printed @ [Successfully_get file_name (length (rows data))]) = (printed', Inl e)"
          using Cons.prems \<open>requests_get net url = Some c\<close> True by (simp add: p)
        from Cons.IH[OF this] show ?thesis by (simp add: answers_def)
      qed
    next
      case False
      then have "fetch_all net urls d (printed @ [Failed_to_retrieve file_name c]) = (printed', Inl e)"
        using Cons.prems Some by (simp add: p)
      from Cons.IH[OF this] show ?thesis by (simp add: answers_def)
    qed
  qed
qed

lemma fetch_all_returns:
  "fetch_all net urls d printed = (printed', Inr d') \<Longrightarrow> answers net urls"
proof (induction urls arbitrary: d printed)
  case Nil
  then show ?case by (simp add: answers_def)
next
  case (Cons p urls)
  obtain file_name url where p: "p = (file_name, url)" by (cases p)
  show ?case
  proof (cases "requests_get net url")
    case None
    then show ?thesis using Cons.prems by (simp add: p)
  next
    case (Some c)
    show ?thesis
    proof (cases "c = 200")
      case True
      show ?thesis
      proof (cases "read_csv net url")
        case None
        then show ?thesis using Cons.prems Some True by (simp add: p)
      next
        case (Some data)
        then have "fetch_all net urls (d(file_name \<mapsto> data))
                     (printed @ [Successfully_get file_name (length (rows data))]) = (printed', Inr d')"
          using Cons.prems \<open>requests_get net url = Some c\<close> True by (simp add: p)
        from Cons.IH[OF this] show ?thesis
          using Some \<open>requests_get net url = Some c\<close> by (simp add: answers_def p)
      qed
    next
      case False
      then have "fetch_all net urls d (printed @ [Failed_to_retrieve file_name c]) = (printed', Inr d')"
        using Cons.prems Some by (simp add: p)
      from Cons.IH[OF this] show ?thesis using Some False by (simp add: answers_def p)
    qed
  qed
qed

lemma collected_read:
  assumes "answers net urls" "distinct (map fst urls)" "collected net urls n"
  shows "read_csv net (the (map_of urls n)) \<noteq> None"
proof -
  from assms(3) obtain url where u: "(n, url) \<in> set urls" "requests_get net url = Some 200"
    by (auto simp: collected_def)
  have "map_of urls n = Some url" using assms(2) u(1) by simp
  moreover have "read_csv net url \<noteq> None"
    using assms(1) u by (auto simp: answers_def list_all_iff)
  ultimately show ?thesis by simp
qed

lemma not_collected:
  assumes "distinct (map fst urls)" "(n, u) \<in> set urls" "requests_get net u = Some c" "c \<noteq> 200"
  shows "\<not> collected net urls n"
proof
  assume "collected net urls n"
  then obtain url where u: "(n, url) \<in> set urls" "requests_get net url = Some 200"
    by (auto simp: collected_def)
  have "url = u" using assms(1,2) u(1) by (meson eq_key_imp_eq_value)
  then show False using u(2) assms(3,4) by simp
qed

lemma length_sequence: "sequence xs = Inr vs \<Longrightarrow> length vs = length xs"
  by (induction xs arbitrary: vs) (auto split: sum.splits)

lemma get_column_Inr: "get_column df c = Inr vs \<Longrightarrow> c \<in> set (columns df) \<and> length vs = length (rows df)"
  using index_of_None_iff[of c "columns df"]
  by (auto simp: get_column_def split: option.splits)

lemma dataframe_set_column_values:
  assumes "dataframe df" "c \<in> set (columns df)" "length vs = length (rows df)"
  shows "dataframe (set_column_values df c vs)"
proof -
  from index_of_mem[OF assms(2)] obtain j where j: "index_of c (columns df) = Some j" by auto
  have "length row = length (columns df)"
    if "row \<in> set (map (\<lambda>(row, v). row[j := v]) (zip (rows df) vs))" for row
    using that dataframeD[OF assms(1)] by (auto dest: set_zip_leftD)
  then show ?thesis
    using assms(1) j by (simp add: dataframe_def set_column_values_def list_all_iff)
qed

lemma columns_set_column_values_mem:
  "c \<in> set (columns df) \<Longrightarrow> columns (set_column_values df c vs) = columns df"
  using index_of_mem[of c "columns df"] by (auto simp: set_column_values_def)

lemma sequence_nth:
  "sequence (map f xs) = Inr ys \<Longrightarrow> k < length xs \<Longrightarrow> f (xs ! k) = Inr (ys ! k)"
proof (induction xs arbitrary: ys k)
  case Nil
  then show ?case by simp
next
  case (Cons x xs)
  from Cons.prems(1) obtain v vs where v: "f x = Inr v" "sequence (map f xs) = Inr vs" "ys = v # vs"
    by (auto split: sum.splits)
  show ?case
  proof (cases k)
    case 0
    then show ?thesis using v by simp
  next
    case (Suc k')
    then have "k' < length xs" using Cons.prems(2) by simp
    from Cons.IH[OF v(2) this] show ?thesis using Suc v(3) by simp
  qed
qed

lemma get_column_set_other:
  assumes df: "dataframe df" and c: "c \<in> set (columns df)" and col: "col \<in> set (columns df)"
    and ne: "c \<noteq> col" and len: "length vs = length (rows df)"
  shows "get_column (set_column_values df col vs) c = get_column df c"
proof -
  from index_of_mem[OF col] obtain j where j: "index_of col (columns df) = Some j" by auto
  from index_of_mem[OF c] obtain i where i: "index_of c (columns df) = Some i" by auto
  have ij: "i \<noteq> j" using index_of_inj[OF i] j ne by auto
  have "map (\<lambda>row. row ! i) (map (\<lambda>(row, v). row[j := v]) (zip (rows df) vs)) =
        map (\<lambda>row. row ! i) (rows df)"
  proof (rule nth_equalityI)
    show "length (map (\<lambda>row. row ! i) (map (\<lambda>(row, v). row[j := v]) (zip (rows df) vs))) =
          length (map (\<lambda>row. row ! i) (rows df))"
      using len by simp
  next
    fix k assume "k < length (map (\<lambda>row. row ! i) (map (\<lambda>(row, v). row[j := v]) (zip (rows df) vs)))"
    then have k: "k < length (rows df)" using len by simp
    then show "map (\<lambda>row. row ! i) (map (\<lambda>(row, v). row[j := v]) (zip (rows df) vs)) ! k =
               map (\<lambda>row. row ! i) (rows df) ! k"
      using len ij by simp
  qed
  then show ?thesis using i j by (simp add: get_column_def set_column_values_def)
qed

text \<open>What a call that returns has computed, step by step.\<close>

lemma date_format_steps:
  assumes df: "dataframe df" and ret: "date_format iso_datetimes df col fmt = (df2, Inr out)"
  shows "\<exists>xs parsed strings reparsed.
           get_column df col = Inr xs \<and>
           to_datetime iso_datetimes xs = Inr parsed \<and>
           strftime iso_datetimes fmt parsed = Inr strings \<and>
           to_datetime iso_datetimes strings = Inr reparsed \<and>
           rendered iso_datetimes df col fmt = Inr strings \<and>
           out = df2 \<and> get_column df2 col = Inr reparsed \<and>
           columns df2 = columns df \<and> length (rows df2) = length (rows df) \<and>
           (\<forall>c \<in> set (columns df). c \<noteq> col \<longrightarrow> get_column df2 c = get_column df c)"
proof -
  from ret obtain xs where xs: "get_column df col = Inr xs"
    by (auto simp: date_format_def split: sum.splits)
  from ret xs obtain parsed where parsed: "to_datetime iso_datetimes xs = Inr parsed"
    by (auto simp: date_format_def split: sum.splits)
  define df1 where "df1 = set_column_values df col parsed"
  have col: "col \<in> set (columns df)" and lx: "length xs = length (rows df)"
    using get_column_Inr[OF xs] by simp_all
  have lp: "length parsed = length (rows df)"
    using parsed lx length_sequence[of "map to_datetime_cell xs" parsed]
    by (simp add: iso_datetimes_def)
  have g1: "get_column df1 col = Inr parsed"
    unfolding df1_def by (rule get_set_column_values[OF df lp])
  have d1: "dataframe df1" unfolding df1_def by (rule dataframe_set_column_values[OF df col lp])
  have l1: "length (rows df1) = length (rows df)"
    unfolding df1_def by (rule length_set_column_values[OF lp])
  have c1: "columns df1 = columns df"
    unfolding df1_def by (rule columns_set_column_values_mem[OF col])
  have step: "date_format iso_datetimes df col fmt =
      (case strftime iso_datetimes fmt parsed of
         Inl e \<Rightarrow> (df1, Inl e)
       | Inr strs \<Rightarrow>
           (case to_datetime iso_datetimes strs of
              Inl e \<Rightarrow> (df1, Inl e)
            | Inr reparsed \<Rightarrow> (set_column_values df1 col reparsed, Inr (set_column_values df1 col reparsed))))"
    unfolding date_format_def xs parsed sum.case Let_def df1_def[symmetric] g1 ..
  from ret obtain strings where strings: "strftime iso_datetimes fmt parsed = Inr strings"
    unfolding step by (auto split: sum.splits)
  from ret strings obtain reparsed where reparsed: "to_datetime iso_datetimes strings = Inr reparsed"
    unfolding step by (auto split: sum.splits)
  have res: "df2 = set_column_values df1 col reparsed" "out = df2"
    using ret by (auto simp: step strings reparsed)
  have ls: "length strings = length parsed"
    using strings length_sequence[of "map (strftime_cell fmt) parsed" strings]
    by (simp add: iso_datetimes_def)
  have lr: "length reparsed = length (rows df1)"
    using reparsed length_sequence[of "map to_datetime_cell strings" reparsed] ls lp l1
    by (simp add: iso_datetimes_def)
  have col1: "col \<in> set (columns df1)" using col c1 by simp
  have g2: "get_column df2 col = Inr reparsed"
    unfolding res(1) by (rule get_set_column_values[OF d1 lr])
  have r: "rendered iso_datetimes df col fmt = Inr strings"
    by (simp add: rendered_def xs parsed strings)
  have c2: "columns df2 = columns df"
    unfolding res(1) using columns_set_column_values_mem[OF col1] c1 by simp
  have l2: "length (rows df2) = length (rows df)"
    unfolding res(1) using length_set_column_values[OF lr] l1 by simp
  have others: "get_column df2 c = get_column df c" if "c \<in> set (columns df)" "c \<noteq> col" for c
  proof -
    have "get_column df2 c = get_column df1 c"
      unfolding res(1) using get_column_set_other[OF d1 _ col1 that(2) lr] that(1) c1 by simp
    also have "\<dots> = get_column df c"
      unfolding df1_def by (rule get_column_set_other[OF df that(1) col that(2) lp])
    finally show ?thesis .
  qed
  show ?thesis
    using xs parsed strings reparsed r res(2) g2 c2 l2 others by blast
qed

text \<open>The call returns when the column renders and the rendered strings parse.\<close>

lemma date_format_returns:
  assumes df: "dataframe df" and r: "rendered iso_datetimes df col fmt = Inr strings"
    and p: "to_datetime iso_datetimes strings = Inr reparsed"
  shows "\<exists>out. date_format iso_datetimes df col fmt = (out, Inr out)"
proof -
  from r obtain xs where xs: "get_column df col = Inr xs"
    by (auto simp: rendered_def split: sum.splits)
  from r xs obtain parsed where parsed: "to_datetime iso_datetimes xs = Inr parsed"
    by (auto simp: rendered_def split: sum.splits)
  have strings: "strftime iso_datetimes fmt parsed = Inr strings"
    using r by (simp add: rendered_def xs parsed)
  have lx: "length xs = length (rows df)" using get_column_Inr[OF xs] by simp
  have lp: "length parsed = length (rows df)"
    using parsed lx length_sequence[of "map to_datetime_cell xs" parsed]
    by (simp add: iso_datetimes_def)
  have g1: "get_column (set_column_values df col parsed) col = Inr parsed"
    by (rule get_set_column_values[OF df lp])
  show ?thesis
    unfolding date_format_def xs parsed sum.case Let_def g1 strings p by blast
qed

text \<open>The format \<^verbatim>\<open>%Y-%m-%d\<close>: ten characters, which parse to a midnight.\<close>

lemma length_pad [simp]: "length (pad w n) = w"
  by (simp add: pad_def)

lemma render_date_length: "render ''%Y-%m-%d'' t = Some s \<Longrightarrow> length s = 10"
  by (auto simp: directive_def Let_def split: prod.splits if_splits)

lemma parse_iso_date:
  assumes "length s = 10" "parse_iso s = Some t"
  shows "t mod day_ns = 0"
proof -
  have "drop 10 s = []" using assms(1) by simp
  then have "parse_time (drop 10 s) = Some 0" by (simp add: parse_time_def)
  then obtain n where "t = n * day_ns"
    using assms(2) by (auto simp: parse_iso_def split: if_splits option.splits)
  then show ?thesis by simp
qed

lemma to_datetime_cell_Inr:
  "to_datetime_cell c = Inr v \<Longrightarrow> v = Null \<or> (\<exists>t. v = Timestamp t)"
  by (cases c) (auto split: option.splits)

lemma reformat_date_cell:
  assumes "to_datetime_cell c = Inr v" "strftime_cell ''%Y-%m-%d'' v = Inr w" "to_datetime_cell w = Inr u"
  shows "u = Null \<or> (\<exists>t. u = Timestamp t \<and> t mod day_ns = 0)"
proof -
  from to_datetime_cell_Inr[OF assms(1)] consider "v = Null" | t where "v = Timestamp t" by blast
  then show ?thesis
  proof cases
    case 1
    then show ?thesis using assms(2,3) by auto
  next
    case 2
    then obtain s where s: "render ''%Y-%m-%d'' t = Some s" "w = Str s"
      using assms(2) by (auto split: option.splits)
    then obtain t' where t': "parse_iso s = Some t'" "u = Timestamp t'"
      using assms(3) by (auto split: option.splits)
    from parse_iso_date[OF render_date_length[OF s(1)] t'(1)] show ?thesis using t'(2) by simp
  qed
qed

lemma date_format_raises:
  assumes df: "dataframe df" and ret: "snd (date_format iso_datetimes df col fmt) = Inl e"
  shows "rendered iso_datetimes df col fmt = Inl e \<or>
         (\<exists>strings. rendered iso_datetimes df col fmt = Inr strings \<and>
                    to_datetime iso_datetimes strings = Inl e)"
proof (cases "get_column df col")
  case (Inl e')
  then show ?thesis using ret by (simp add: date_format_def rendered_def)
next
  case xs: (Inr xs)
  show ?thesis
  proof (cases "to_datetime iso_datetimes xs")
    case (Inl e')
    then show ?thesis using ret xs by (simp add: date_format_def rendered_def)
  next
    case parsed: (Inr parsed)
    have lx: "length xs = length (rows df)" using get_column_Inr[OF xs] by simp
    have lp: "length parsed = length (rows df)"
      using parsed lx length_sequence[of "map to_datetime_cell xs" parsed]
      by (simp add: iso_datetimes_def)
    have g1: "get_column (set_column_values df col parsed) col = Inr parsed"
      by (rule get_set_column_values[OF df lp])
    have step: "snd (date_format iso_datetimes df col fmt) =
      snd (case strftime iso_datetimes fmt parsed of
         Inl e \<Rightarrow> (set_column_values df col parsed, Inl e)
       | Inr strs \<Rightarrow>
           (case to_datetime iso_datetimes strs of
              Inl e \<Rightarrow> (set_column_values df col parsed, Inl e)
            | Inr reparsed \<Rightarrow>
                (set_column_values (set_column_values df col parsed) col reparsed,
                 Inr (set_column_values (set_column_values df col parsed) col reparsed))))"
      unfolding date_format_def xs parsed sum.case Let_def g1 ..
    have r: "rendered iso_datetimes df col fmt = strftime iso_datetimes fmt parsed"
      by (simp add: rendered_def xs parsed)
    show ?thesis
    proof (cases "strftime iso_datetimes fmt parsed")
      case (Inl e')
      then show ?thesis using ret r by (simp add: step)
    next
      case strings: (Inr strings)
      show ?thesis
      proof (cases "to_datetime iso_datetimes strings")
        case (Inl e')
        then show ?thesis using ret r strings by (simp add: step)
      next
        case (Inr reparsed)
        then show ?thesis using ret strings by (simp add: step)
      qed
    qed
  qed
qed

text \<open>
  C2. For every entity \<open>a\<close> with \<open>i\<close> intake rows and \<open>o\<close> outcome rows, both counted in
  table order: the call leaves the \<^verbatim>\<open>animal_id\<close> column of the intake table as it was, so
  the \<open>k\<close>-th row of \<open>a\<close> is the same row before and after; if \<open>i \<le> o\<close>, the \<open>k\<close>-th intake row
  of \<open>a\<close> is assigned the \<open>k\<close>-th outcome timestamp of \<open>a\<close>, which is not null, for every
  \<open>k < i\<close>; if \<open>i > o\<close>, the intake rows of \<open>a\<close> at positions \<open>o\<close> to \<open>i - 1\<close> are assigned null.
\<close>

theorem fifo_pairing:
  assumes "intake_events (intake_data s)" and "outcome_events (outcome_data s)"
  shows "map (cell_at (intake_data (fst (merge_intake_n_outcome s))) ''animal_id'')
             (rows (intake_data (fst (merge_intake_n_outcome s)))) =
         map (cell_at (intake_data s) ''animal_id'') (rows (intake_data s)) \<and>
         length (matched_times (intake_data (fst (merge_intake_n_outcome s))) a) =
         length (entity_rows (intake_data s) a) \<and>
         (length (entity_rows (intake_data s) a) \<le> length (outcome_times (outcome_data s) a) \<longrightarrow>
         (\<forall>k < length (entity_rows (intake_data s) a).
            matched_times (intake_data (fst (merge_intake_n_outcome s))) a ! k =
              outcome_times (outcome_data s) a ! k \<and>
            matched_times (intake_data (fst (merge_intake_n_outcome s))) a ! k \<noteq> Null)) \<and>
         (length (outcome_times (outcome_data s) a) < length (entity_rows (intake_data s) a) \<longrightarrow>
         (\<forall>k. length (outcome_times (outcome_data s) a) \<le> k \<and>
              k < length (entity_rows (intake_data s) a) \<longrightarrow>
              matched_times (intake_data (fst (merge_intake_n_outcome s))) a ! k = Null))"
proof -
  from merge_state[OF assms] obtain ia jo iao ito where
    ia: "index_of ''animal_id'' (columns (intake_data s)) = Some ia"
    and jo: "index_of ''datetime_outcome'' (columns (set_column (intake_data s) ''datetime_outcome'' Null)) = Some jo"
    and iao: "index_of ''animal_id'' (columns (outcome_data s)) = Some iao"
    and ito: "index_of ''datetime'' (columns (outcome_data s)) = Some ito"
    and ne: "jo \<noteq> ia"
    and m: "fst (merge_intake_n_outcome s) =
              s\<lparr>intake_data := correlated ia jo iao ito (intake_data s) (outcome_data s)\<rparr>"
    by auto
  have df: "dataframe (intake_data s)" using assms(1) by (simp add: intake_events_def)
  define I' where "I' = correlated ia jo iao ito (intake_data s) (outcome_data s)"
  have I': "intake_data (fst (merge_intake_n_outcome s)) = I'" by (simp add: m I'_def)
  have mt: "matched_times I' a =
         take (length (entity_rows (intake_data s) a)) (outcome_times (outcome_data s) a) @
         replicate (length (entity_rows (intake_data s) a) - length (outcome_times (outcome_data s) a)) Null"
    unfolding I'_def by (rule matched_times_correlated[OF df ia iao ito jo])
  have ia1: "index_of ''animal_id'' (columns I') = Some ia"
    using set_column_facts[OF df ia] by (auto simp: I'_def correlated_def)
  have ial: "ia < length (columns (intake_data s))" using index_of_Some_less[OF ia] by simp
  have part1: "map (cell_at (intake_data (fst (merge_intake_n_outcome s))) ''animal_id'')
             (rows (intake_data (fst (merge_intake_n_outcome s)))) =
         map (cell_at (intake_data s) ''animal_id'') (rows (intake_data s))"
    unfolding I'
    using correlated_frame[OF df ia jo, of iao ito "outcome_data s"] ia ia1 ial ne
    by (intro nth_equalityI) (simp_all add: I'_def[symmetric] cell_at_def)
  have part2: "length (matched_times (intake_data (fst (merge_intake_n_outcome s))) a) =
         length (entity_rows (intake_data s) a)"
    unfolding I' mt by simp
  have nn: "outcome_times (outcome_data s) a ! k \<noteq> Null"
    if "k < length (outcome_times (outcome_data s) a)" for k
  proof -
    have "outcome_times (outcome_data s) a ! k \<in> set (outcome_times (outcome_data s) a)"
      using that by simp
    then obtain row where "row \<in> set (rows (outcome_data s))"
      "outcome_times (outcome_data s) a ! k = cell_at (outcome_data s) ''datetime'' row"
      by (auto simp: outcome_times_def entity_rows_def)
    moreover have "is_timestamp (cell_at (outcome_data s) ''datetime'' row)"
      using assms(2) calculation(1) by (simp add: outcome_events_def list_all_iff)
    ultimately show ?thesis by auto
  qed
  have part3: "length (entity_rows (intake_data s) a) \<le> length (outcome_times (outcome_data s) a) \<longrightarrow>
         (\<forall>k < length (entity_rows (intake_data s) a).
            matched_times (intake_data (fst (merge_intake_n_outcome s))) a ! k =
              outcome_times (outcome_data s) a ! k \<and>
            matched_times (intake_data (fst (merge_intake_n_outcome s))) a ! k \<noteq> Null)"
    unfolding I' mt using nn by (simp add: nth_append)
  have part4: "length (outcome_times (outcome_data s) a) < length (entity_rows (intake_data s) a) \<longrightarrow>
         (\<forall>k. length (outcome_times (outcome_data s) a) \<le> k \<and>
              k < length (entity_rows (intake_data s) a) \<longrightarrow>
              matched_times (intake_data (fst (merge_intake_n_outcome s))) a ! k = Null)"
    unfolding I' mt by (auto simp: nth_append)
  show ?thesis using part1 part2 part3 part4 by blast
qed

theorem fifo_pairing_witness:
  "intake_events (intake_data example_frames) \<and> outcome_events (outcome_data example_frames) \<and>
   length (entity_rows (intake_data example_frames) (Str ''a'')) = 2 \<and>
   length (outcome_times (outcome_data example_frames) (Str ''a'')) = 1 \<and>
   matched_times (intake_data (fst (merge_intake_n_outcome example_frames))) (Str ''a'') ! 1 = Null \<and>
   length (entity_rows (intake_data example_frames) (Str ''b'')) = 1 \<and>
   length (outcome_times (outcome_data example_frames) (Str ''b'')) = 1 \<and>
   matched_times (intake_data (fst (merge_intake_n_outcome example_frames))) (Str ''b'') ! 0 =
     Timestamp 1366529040"
proof -
  have i: "intake_events (intake_data example_frames)"
    by (simp add: example_frames_def example_intake_def intake_events_def dataframe_def cell_at_def)
  have o: "outcome_events (outcome_data example_frames)"
    by (simp add: example_frames_def example_outcome_def outcome_events_def dataframe_def cell_at_def)
  have ia: "length (entity_rows (intake_data example_frames) (Str ''a'')) = 2"
    and ib: "length (entity_rows (intake_data example_frames) (Str ''b'')) = 1"
    by (simp_all add: example_frames_def example_intake_def entity_rows_def cell_at_def)
  have oa: "outcome_times (outcome_data example_frames) (Str ''a'') = [Timestamp 1557771600]"
    and ob: "outcome_times (outcome_data example_frames) (Str ''b'') = [Timestamp 1366529040]"
    by (simp_all add: example_frames_def example_outcome_def outcome_times_def entity_rows_def cell_at_def)
  show ?thesis
    using fifo_pairing[OF i o, of "Str ''a''"] fifo_pairing[OF i o, of "Str ''b''"] i o ia ib oa ob
    by simp
qed

text \<open>
  C5, as the code has it. The call writes to its first argument: the intake table gains the
  column \<^verbatim>\<open>datetime_outcome\<close> as its last column (a column of that name is overwritten
  where it stands). Everything else is left as it was: the outcome table, the number of
  intake rows, and every cell of every other intake column. The queue of outcome
  timestamps is a value of the call and no part of the state.
\<close>

theorem merge_frame:
  assumes "intake_events (intake_data s)" and "outcome_events (outcome_data s)"
  shows "outcome_data (fst (merge_intake_n_outcome s)) = outcome_data s \<and>
         columns (intake_data (fst (merge_intake_n_outcome s))) =
           (if ''datetime_outcome'' \<in> set (columns (intake_data s)) then columns (intake_data s)
            else columns (intake_data s) @ [''datetime_outcome'']) \<and>
         length (rows (intake_data (fst (merge_intake_n_outcome s)))) = length (rows (intake_data s)) \<and>
         (\<forall>p < length (rows (intake_data s)). \<forall>c \<in> set (columns (intake_data s)).
            c \<noteq> ''datetime_outcome'' \<longrightarrow>
            cell_at (intake_data (fst (merge_intake_n_outcome s))) c
              (rows (intake_data (fst (merge_intake_n_outcome s))) ! p) =
            cell_at (intake_data s) c (rows (intake_data s) ! p))"
proof -
  from merge_state[OF assms] obtain ia jo iao ito where
    ia: "index_of ''animal_id'' (columns (intake_data s)) = Some ia"
    and jo: "index_of ''datetime_outcome'' (columns (set_column (intake_data s) ''datetime_outcome'' Null)) = Some jo"
    and m: "fst (merge_intake_n_outcome s) =
              s\<lparr>intake_data := correlated ia jo iao ito (intake_data s) (outcome_data s)\<rparr>"
    by auto
  have df: "dataframe (intake_data s)" using assms(1) by (simp add: intake_events_def)
  define I' where "I' = correlated ia jo iao ito (intake_data s) (outcome_data s)"
  have I': "intake_data (fst (merge_intake_n_outcome s)) = I'" by (simp add: m I'_def)
  have cols: "columns I' = (if ''datetime_outcome'' \<in> set (columns (intake_data s)) then columns (intake_data s)
            else columns (intake_data s) @ [''datetime_outcome''])"
    by (simp add: I'_def correlated_def columns_set_column)
  note fr = correlated_frame[OF df ia jo, of iao ito "outcome_data s", folded I'_def]
  have cells: "cell_at I' c (rows I' ! p) = cell_at (intake_data s) c (rows (intake_data s) ! p)"
    if p: "p < length (rows (intake_data s))" and c: "c \<in> set (columns (intake_data s))"
      and ne: "c \<noteq> ''datetime_outcome''" for p c
  proof -
    from index_of_mem[OF c] obtain j where j: "index_of c (columns (intake_data s)) = Some j" by auto
    have jl: "j < length (columns (intake_data s))" using index_of_Some_less[OF j] by simp
    have j': "index_of c (columns I') = Some j"
      using j c by (simp add: cols index_of_append_mem)
    have "j \<noteq> jo"
    proof
      assume "j = jo"
      then have "index_of c (columns (set_column (intake_data s) ''datetime_outcome'' Null)) = Some jo"
        using j' by (simp add: I'_def correlated_def)
      from index_of_inj[OF this jo] ne show False by simp
    qed
    then show ?thesis using fr(2) p jl j j' by (simp add: cell_at_def)
  qed
  show ?thesis
    unfolding I' using outcome_data_merge[of s] cols fr(1) cells I' by simp
qed

theorem merge_frame_witness:
  "intake_events (intake_data example_frames) \<and> outcome_events (outcome_data example_frames) \<and>
   outcome_data (fst (merge_intake_n_outcome example_frames)) = example_outcome \<and>
   columns (intake_data (fst (merge_intake_n_outcome example_frames))) =
     [''animal_id'', ''datetime'', ''datetime_outcome''] \<and>
   length (rows (intake_data (fst (merge_intake_n_outcome example_frames)))) = 6"
proof -
  have i: "intake_events (intake_data example_frames)"
    by (simp add: example_frames_def example_intake_def intake_events_def dataframe_def cell_at_def)
  have o: "outcome_events (outcome_data example_frames)"
    by (simp add: example_frames_def example_outcome_def outcome_events_def dataframe_def cell_at_def)
  show ?thesis
    using merge_frame[OF i o] i o by (simp add: example_frames_def example_intake_def)
qed

text \<open>
  C5 as stated fails: on the doctest's tables the intake table after the call is not the
  intake table before it.
\<close>

theorem merge_writes_intake:
  "intake_data (fst (merge_intake_n_outcome example_frames)) \<noteq> intake_data example_frames"
  by code_simp

text \<open>
  C4. A second call on the same two arguments, in the state the first call left them in,
  returns what the first call returned (and leaves the state as the first call left it):
  the second call resets the column the first one wrote.
\<close>

theorem merge_twice:
  assumes "intake_events (intake_data s)" and "outcome_events (outcome_data s)"
  shows "merge_intake_n_outcome (fst (merge_intake_n_outcome s)) = merge_intake_n_outcome s"
proof -
  from merge_state[OF assms] obtain ia jo iao ito where
    ia: "index_of ''animal_id'' (columns (intake_data s)) = Some ia"
    and jo: "index_of ''datetime_outcome'' (columns (set_column (intake_data s) ''datetime_outcome'' Null)) = Some jo"
    and iao: "index_of ''animal_id'' (columns (outcome_data s)) = Some iao"
    and ito: "index_of ''datetime'' (columns (outcome_data s)) = Some ito"
    and m: "fst (merge_intake_n_outcome s) =
              s\<lparr>intake_data := correlated ia jo iao ito (intake_data s) (outcome_data s)\<rparr>"
    by auto
  have df: "dataframe (intake_data s)" using assms(1) by (simp add: intake_events_def)
  show ?thesis
  proof (rule merge_intake_n_outcome_cong)
    show "outcome_data (fst (merge_intake_n_outcome s)) = outcome_data s" by (rule outcome_data_merge)
    show "set_column (intake_data (fst (merge_intake_n_outcome s))) ''datetime_outcome'' Null =
          set_column (intake_data s) ''datetime_outcome'' Null"
      unfolding m using set_column_correlated[OF df ia jo] by simp
    show "build_outcome_dict (columns (outcome_data s)) (rows (outcome_data s)) Map.empty =
            Inr (extend_dict iao ito (rows (outcome_data s)) Map.empty)"
      by (rule build_outcome_dict_eq[OF iao ito])
  qed
qed

theorem merge_twice_witness:
  "intake_events (intake_data example_frames) \<and> outcome_events (outcome_data example_frames) \<and>
   snd (merge_intake_n_outcome (fst (merge_intake_n_outcome example_frames))) =
   snd (merge_intake_n_outcome example_frames)"
proof -
  have i: "intake_events (intake_data example_frames)"
    by (simp add: example_frames_def example_intake_def intake_events_def dataframe_def cell_at_def)
  have o: "outcome_events (outcome_data example_frames)"
    by (simp add: example_frames_def example_outcome_def outcome_events_def dataframe_def cell_at_def)
  show ?thesis using merge_twice[OF i o] i o by simp
qed

text \<open>
  C1 at an input with duplicate outcome rows: two intake rows of one entity and three
  outcome rows of that entity with one timestamp give six rows, not two. The final merge
  joins by the value of (\<^verbatim>\<open>animal_id\<close>, timestamp), so each intake row is joined to every
  outcome row that carries the timestamp it was assigned.
\<close>

theorem duplicates_fan_out:
  "snd (merge_intake_n_outcome duplicate_frames) =
     Inr \<lparr>columns = [''animal_id'', ''datetime_intake'', ''datetime_outcome'', ''datetime_outcome'',
                     ''outcome_type''],
          rows = [[Str ''a'', Timestamp 1, Timestamp 5, Timestamp 5, Str ''Transfer''],
                  [Str ''a'', Timestamp 1, Timestamp 5, Timestamp 5, Str ''Adoption''],
                  [Str ''a'', Timestamp 1, Timestamp 5, Timestamp 5, Str ''Return''],
                  [Str ''a'', Timestamp 2, Timestamp 5, Timestamp 5, Str ''Transfer''],
                  [Str ''a'', Timestamp 2, Timestamp 5, Timestamp 5, Str ''Adoption''],
                  [Str ''a'', Timestamp 2, Timestamp 5, Timestamp 5, Str ''Return'']]\<rparr> \<and>
   length (rows (intake_data duplicate_frames)) = 2"
  by code_simp

text \<open>
  C3 at the same input: the indexers of the final merge join every one of the three
  outcome rows to both intake rows, and the third outcome row, which no intake row
  popped, is in the output as well.
\<close>

theorem duplicates_joined_twice:
  "merge_indexers (intake_data (fst (merge_intake_n_outcome duplicate_frames)))
          (outcome_data (fst (merge_intake_n_outcome duplicate_frames)))
          [''animal_id'', ''datetime_outcome''] [''animal_id'', ''datetime''] =
     Inr [(0, Some 0), (0, Some 1), (0, Some 2), (1, Some 0), (1, Some 1), (1, Some 2)]"
  by code_simp

text \<open>
  C10, as the code has it. When both tables have a column \<^verbatim>\<open>datetime\<close>, the outcome table
  has no column \<^verbatim>\<open>datetime_outcome\<close>, and the call returns a table, that table has exactly
  two columns labelled \<^verbatim>\<open>datetime_outcome\<close>, at positions \<open>p1 < p2\<close>. In every row, column
  \<open>p1\<close> holds the cell the second loop wrote to the intake row the output row comes from,
  column \<open>p2\<close> holds the \<^verbatim>\<open>datetime\<close> of the outcome row it is joined to (null when it is
  joined to none), the two cells are equal, and they are null exactly when the row is
  joined to no outcome row.
\<close>

theorem merge_datetime_outcome_columns:
  assumes ie: "intake_events (intake_data s)" and oe: "outcome_events (outcome_data s)"
    and dtI: "''datetime'' \<in> set (columns (intake_data s))"
    and dtoO: "''datetime_outcome'' \<notin> set (columns (outcome_data s))"
    and ret: "merge_intake_n_outcome s = (s', Inr out)"
  shows "\<exists>p1 p2 ix.
           p1 < p2 \<and> p2 < length (columns out) \<and>
           columns out ! p1 = ''datetime_outcome'' \<and> columns out ! p2 = ''datetime_outcome'' \<and>
           length (filter (\<lambda>c. c = ''datetime_outcome'') (columns out)) = 2 \<and>
           merge_indexers (intake_data s') (outcome_data s')
             [''animal_id'', ''datetime_outcome''] [''animal_id'', ''datetime''] = Inr ix \<and>
           length (rows out) = length ix \<and>
           (\<forall>n < length ix.
              rows out ! n ! p1 =
                cell_at (intake_data s') ''datetime_outcome'' (rows (intake_data s') ! fst (ix ! n)) \<and>
              rows out ! n ! p2 =
                (case snd (ix ! n) of
                   None \<Rightarrow> Null
                 | Some j \<Rightarrow> cell_at (outcome_data s') ''datetime'' (rows (outcome_data s') ! j)) \<and>
              rows out ! n ! p1 = rows out ! n ! p2 \<and>
              (snd (ix ! n) = None \<longleftrightarrow> rows out ! n ! p1 = Null))"
proof -
  define lo where "lo = [''animal_id'', ''datetime_outcome'']"
  define ro where "ro = [''animal_id'', ''datetime'']"
  from merge_state[OF ie oe] obtain ia jo iao ito where
    ia: "index_of ''animal_id'' (columns (intake_data s)) = Some ia"
    and jo: "index_of ''datetime_outcome'' (columns (set_column (intake_data s) ''datetime_outcome'' Null)) = Some jo"
    and iao: "index_of ''animal_id'' (columns (outcome_data s)) = Some iao"
    and ito: "index_of ''datetime'' (columns (outcome_data s)) = Some ito"
    and m: "merge_intake_n_outcome s =
             (s\<lparr>intake_data := correlated ia jo iao ito (intake_data s) (outcome_data s)\<rparr>,
              pd_merge_left (correlated ia jo iao ito (intake_data s) (outcome_data s)) (outcome_data s)
                lo ro (''_intake'', ''_outcome''))"
    unfolding lo_def ro_def by blast
  define I' where "I' = correlated ia jo iao ito (intake_data s) (outcome_data s)"
  define O' where "O' = outcome_data s"
  have s': "intake_data s' = I'" "outcome_data s' = O'"
    and pm: "pd_merge_left I' O' lo ro (''_intake'', ''_outcome'') = Inr out"
    using m ret by (auto simp: I'_def O'_def)
  have df: "dataframe (intake_data s)" using ie by (simp add: intake_events_def)
  have dfO: "dataframe O'" using oe by (simp add: outcome_events_def O'_def)
  have dfI': "dataframe I'"
    unfolding I'_def by (rule dataframe_correlated[OF df ia jo])
  have colsI': "columns I' = columns (set_column (intake_data s) ''datetime_outcome'' Null)"
    by (simp add: I'_def correlated_def)
  have cI: "index_of ''animal_id'' (columns I') = Some ia" "index_of ''datetime_outcome'' (columns I') = Some jo"
    using set_column_facts[OF df ia] jo by (auto simp: colsI')
  have cO: "index_of ''animal_id'' (columns O') = Some iao" "index_of ''datetime'' (columns O') = Some ito"
    using iao ito by (simp_all add: O'_def)
  have dtI': "''datetime'' \<in> set (columns I')"
    using dtI by (simp add: colsI' columns_set_column)
  have dtoI': "''datetime_outcome'' \<in> set (columns I')"
    using cI(2) index_of_None_iff[of "''datetime_outcome''" "columns I'"] by auto
  have dtoO': "''datetime_outcome'' \<notin> set (columns O')" using dtoO by (simp add: O'_def)
  have dtO': "''datetime'' \<in> set (columns O')"
    using cO(2) index_of_None_iff[of "''datetime''" "columns O'"] by auto
  define lk where "lk = map (key_of [ia, jo]) (rows I')"
  define rk where "rk = map (key_of [iao, ito]) (rows O')"
  define ld where "ld = left_drop I' lo ro"
  define rd where "rd = right_drop I' lo ro"
  define lcols where "lcols = filter (\<lambda>c. c \<notin> set ld) (columns I')"
  define rcols where "rcols = filter (\<lambda>c. c \<notin> set rd) (columns O')"
  have mi: "merge_indexers I' O' lo ro = Inr (join_indexers lk rk)"
    using cI cO by (simp add: merge_indexers_def lo_def ro_def lk_def rk_def)
  from pd_merge_left_Inr[OF pm] mi obtain llabels rlabels where
    ov: "items_overlap_with_suffix lcols rcols (''_intake'', ''_outcome'') = Inr (llabels, rlabels)"
    and co: "columns out = llabels @ rlabels"
    and ro': "rows out = map (join_row I' O' ld rd) (join_indexers lk rk)"
    unfolding ld_def rd_def lcols_def rcols_def by auto
  have drops: "set ld \<subseteq> {''animal_id''}" "set rd \<subseteq> {''animal_id''}"
    by (auto simp: ld_def rd_def left_drop_def right_drop_def lo_def ro_def common_keys_def)
  have "''datetime_outcome'' \<in> set lcols" using dtoI' drops(1) by (auto simp: lcols_def)
  from index_of_mem[OF this] obtain p1 where p1: "index_of ''datetime_outcome'' lcols = Some p1" ..
  have nr: "''datetime_outcome'' \<notin> set rcols" using dtoO' by (simp add: rcols_def)
  have "''datetime'' \<in> set rcols" using dtO' drops(2) by (auto simp: rcols_def)
  from index_of_mem[OF this] obtain k where k: "index_of ''datetime'' rcols = Some k" ..
  have dl: "''datetime'' \<in> set lcols" using dtI' drops(1) by (auto simp: lcols_def)
  have "''datetime'' @ ''_outcome'' = ''datetime_outcome''" by simp
  from overlap_labels[OF ov p1 nr k dl this]
  have lab: "p1 < length llabels" "llabels ! p1 = ''datetime_outcome''" "k < length rlabels"
    "rlabels ! k = ''datetime_outcome''" "length llabels = length lcols" "length rlabels = length rcols"
    "length (filter (\<lambda>c. c = ''datetime_outcome'') (llabels @ rlabels)) = 2"
    by simp_all
  define p2 where "p2 = length llabels + k"
  have cols: "p1 < p2" "p2 < length (columns out)" "columns out ! p1 = ''datetime_outcome''"
    "columns out ! p2 = ''datetime_outcome''"
    "length (filter (\<lambda>c. c = ''datetime_outcome'') (columns out)) = 2"
    using lab by (simp_all add: p2_def co nth_append)
  have cells: "rows out ! n ! p1 = cell_at I' ''datetime_outcome'' (rows I' ! fst (join_indexers lk rk ! n)) \<and>
      rows out ! n ! p2 =
        (case snd (join_indexers lk rk ! n) of
           None \<Rightarrow> Null
         | Some j \<Rightarrow> cell_at O' ''datetime'' (rows O' ! j)) \<and>
      rows out ! n ! p1 = rows out ! n ! p2 \<and>
      (snd (join_indexers lk rk ! n) = None \<longleftrightarrow> rows out ! n ! p1 = Null)"
    if n: "n < length (join_indexers lk rk)" for n
  proof -
    obtain i mm where im: "join_indexers lk rk ! n = (i, mm)" by (cases "join_indexers lk rk ! n")
    then have mem: "(i, mm) \<in> set (join_indexers lk rk)" using n nth_mem by metis
    then have i: "i < length (rows I')" by (simp add: join_indexers_mem lk_def)
    then have ne: "rows I' \<noteq> []" by auto
    have ld: "ld = []" and rd: "rd = [''animal_id'']"
      using ne by (simp_all add: ld_def rd_def left_drop_def right_drop_def lo_def ro_def common_keys_def)
    have lc: "lcols = columns I'" by (simp add: lcols_def ld)
    have p1jo: "p1 = jo" using p1 cI(2) by (simp add: lc)
    have li: "length (rows I' ! i) = length (columns I')"
      using dataframeD[OF dfI'] i by simp
    have jol: "jo < length (columns I')" using index_of_Some_less[OF cI(2)] by simp
    have ial: "ia < length (columns I')" using index_of_Some_less[OF cI(1)] by simp
    have row: "rows out ! n =
        rows I' ! i @ (case mm of None \<Rightarrow> replicate (length rcols) Null
                       | Some j \<Rightarrow> drop_labels rd (columns O') (rows O' ! j))"
      using n li by (cases mm) (simp_all add: ro' im join_row_def ld drop_labels_Nil rcols_def)
    have c1: "rows out ! n ! p1 = rows I' ! i ! jo"
      using li jol by (simp add: row p1jo nth_append)
    have c2: "rows out ! n ! p2 =
        (case mm of None \<Rightarrow> replicate (length rcols) Null
                       | Some j \<Rightarrow> drop_labels rd (columns O') (rows O' ! j)) ! k"
      using li lab(5) by (simp add: row p2_def lc nth_append)
    have kl: "k < length rcols" using lab(3,6) by simp
    show ?thesis
    proof (cases mm)
      case None
      then have "lk ! i \<notin> set rk" using mem by (simp add: join_indexers_mem matches_Nil)
      have rowmem: "rows I' ! i \<in> set (rows I')" using i by simp
      from assigned_in_queue[OF df ia iao ito jo rowmem[unfolded I'_def]]
      have "rows I' ! i ! jo = Null \<or>
            (\<exists>r \<in> set (rows O'). r ! iao = rows I' ! i ! ia \<and> r ! ito = rows I' ! i ! jo)"
        by (simp add: I'_def O'_def)
      moreover have False if "r \<in> set (rows O')" "r ! iao = rows I' ! i ! ia" "r ! ito = rows I' ! i ! jo" for r
      proof -
        have "key_of [iao, ito] r = lk ! i" using that(2,3) i by (simp add: key_of_def lk_def)
        then have "lk ! i \<in> set rk" using that(1) imageI[of r "set (rows O')" "key_of [iao, ito]"] by (simp add: rk_def)
        then show False using \<open>lk ! i \<notin> set rk\<close> by simp
      qed
      ultimately have "rows I' ! i ! jo = Null" by blast
      then show ?thesis using None c1 c2 kl cI(2) by (simp add: im cell_at_def)
    next
      case (Some j)
      then have j: "j < length (rows O')" "rk ! j = lk ! i"
        using mem by (simp_all add: join_indexers_mem matches_mem rk_def)
      have lj: "length (rows O' ! j) = length (columns O')"
        using dataframeD[OF dfO] j(1) by simp
      have "drop_labels rd (columns O') (rows O' ! j) ! k = rows O' ! j ! ito"
        by (rule drop_labels_nth[OF lj k[unfolded rcols_def] cO(2)])
      then have c2': "rows out ! n ! p2 = rows O' ! j ! ito" using c2 Some by simp
      have eq: "rows O' ! j ! ito = rows I' ! i ! jo"
        using j i by (simp add: rk_def lk_def key_of_def)
      have "rows O' ! j \<in> set (rows O')" using j(1) by simp
      then have "is_timestamp (cell_at O' ''datetime'' (rows O' ! j))"
        using oe by (simp add: outcome_events_def list_all_iff O'_def)
      then have "rows O' ! j ! ito \<noteq> Null" using cO(2) by (auto simp: cell_at_def)
      then show ?thesis using Some c1 c2' eq cI(2) cO(2) by (simp add: im cell_at_def)
    qed
  qed
  have len: "length (rows out) = length (join_indexers lk rk)" by (simp add: ro')
  show ?thesis
    unfolding s'
    apply (rule exI[of _ p1], rule exI[of _ p2], rule exI[of _ "join_indexers lk rk"])
    apply (intro conjI allI impI)
            apply (rule cols(1))
           apply (rule cols(2))
          apply (rule cols(3))
         apply (rule cols(4))
        apply (rule cols(5))
       apply (rule mi[unfolded lo_def ro_def])
      apply (rule len)
    using cells by blast+
qed

theorem merge_datetime_outcome_columns_witness:
  "intake_events (intake_data example_frames) \<and> outcome_events (outcome_data example_frames) \<and>
   ''datetime'' \<in> set (columns (intake_data example_frames)) \<and>
   ''datetime_outcome'' \<notin> set (columns (outcome_data example_frames)) \<and>
   snd (merge_intake_n_outcome example_frames) = Inr example_merged \<and>
   length (filter (\<lambda>c. c = ''datetime_outcome'') (columns example_merged)) = 2 \<and>
   (\<exists>p1 p2. p1 < p2 \<and> p2 < length (columns example_merged) \<and>
      columns example_merged ! p1 = ''datetime_outcome'' \<and>
      columns example_merged ! p2 = ''datetime_outcome'')"
proof -
  have i: "intake_events (intake_data example_frames)"
    by (simp add: example_frames_def example_intake_def intake_events_def dataframe_def cell_at_def)
  have o: "outcome_events (outcome_data example_frames)"
    by (simp add: example_frames_def example_outcome_def outcome_events_def dataframe_def cell_at_def)
  have c1: "''datetime'' \<in> set (columns (intake_data example_frames))"
    by (simp add: example_frames_def example_intake_def)
  have c2: "''datetime_outcome'' \<notin> set (columns (outcome_data example_frames))"
    by (simp add: example_frames_def example_outcome_def)
  have r: "snd (merge_intake_n_outcome example_frames) = Inr example_merged"
    by code_simp
  then have ret: "merge_intake_n_outcome example_frames =
                    (fst (merge_intake_n_outcome example_frames), Inr example_merged)"
    by (simp add: prod_eq_iff)
  from merge_datetime_outcome_columns[OF i o c1 c2 ret]
  have "length (filter (\<lambda>c. c = ''datetime_outcome'') (columns example_merged)) = 2 \<and>
        (\<exists>p1 p2. p1 < p2 \<and> p2 < length (columns example_merged) \<and>
           columns example_merged ! p1 = ''datetime_outcome'' \<and>
           columns example_merged ! p2 = ''datetime_outcome'')"
    by blast
  then show ?thesis using i o c1 c2 r by blast
qed

text \<open>
  C10 as stated fails when the outcome table has a column \<^verbatim>\<open>datetime_outcome\<close>: both
  tables have a column \<^verbatim>\<open>datetime\<close>, yet the label then stands on both sides of the merge,
  the column the correlator added takes the suffix \<^verbatim>\<open>_intake\<close>, and the output has one
  column labelled \<^verbatim>\<open>datetime_outcome\<close>.
\<close>

theorem suffixed_datetime_outcome:
  "''datetime'' \<in> set (columns (intake_data suffixed_frames)) \<and>
   ''datetime'' \<in> set (columns (outcome_data suffixed_frames)) \<and>
   snd (merge_intake_n_outcome suffixed_frames) =
     Inr \<lparr>columns = [''animal_id'', ''datetime_intake'', ''datetime_outcome_intake'',
                     ''datetime_outcome'', ''datetime_outcome_outcome''],
          rows = [[Str ''a'', Timestamp 1, Timestamp 5, Timestamp 5, Timestamp 7]]\<rparr>"
  by code_simp

text \<open>
  C8. For a start column not named \<^verbatim>\<open>date_of_birth\<close> (both columns of dtype
  \<^verbatim>\<open>datetime64\<close>), the function returns one Series, named \<^verbatim>\<open>duration(<unit>)\<close>, with one
  value per row: the whole days of end minus start, rounded down (an integer, or the same
  number as a float when the column has a missing value), and a missing value where
  either timestamp is missing. The values are the same for every unit and suffix.
\<close>

theorem duration_column:
  assumes "dataframe df" and "datetime_column df start" and "datetime_column df end'"
    and "start \<noteq> ''date_of_birth''"
  shows "\<exists>vs. snd (calculate_time_delta df start end' unit col_suffix) =
                Inr \<lparr>series_name = ''duration('' @ unit @ '')'', series_values = vs\<rparr> \<and>
              length vs = length (rows df) \<and>
              (\<forall>k < length (rows df). \<forall>e b.
                 cell_at df end' (rows df ! k) = Timestamp e \<and>
                 cell_at df start (rows df ! k) = Timestamp b \<longrightarrow>
                 (\<exists>d. (vs ! k = Integer d \<or> vs ! k = Decimal (of_int d)) \<and>
                      d * day_ns \<le> e - b \<and> e - b < (d + 1) * day_ns)) \<and>
              (\<forall>k < length (rows df).
                 cell_at df end' (rows df ! k) = Null \<or> cell_at df start (rows df ! k) = Null \<longrightarrow>
                 vs ! k = Null) \<and>
              (\<forall>unit' col_suffix'.
                 snd (calculate_time_delta df start end' unit' col_suffix') =
                   Inr \<lparr>series_name = ''duration('' @ unit' @ '')'', series_values = vs\<rparr>)"
proof -
  from calculate_time_delta_eq[OF assms(1,2,3), where unit = unit and col_suffix = col_suffix] assms(4)
  obtain ds where ds: "length ds = length (rows df)"
    "\<forall>k < length (rows df).
        ds ! k = (case (cell_at df end' (rows df ! k), cell_at df start (rows df ! k)) of
                    (Timestamp e, Timestamp b) \<Rightarrow> Some (e - b)
                  | _ \<Rightarrow> None)"
    "snd (calculate_time_delta df start end' unit col_suffix) =
       Inr \<lparr>series_name = ''duration('' @ unit @ '')'', series_values = dt_days ds\<rparr>"
    by auto
  have other: "snd (calculate_time_delta df start end' unit' col_suffix') =
       Inr \<lparr>series_name = ''duration('' @ unit' @ '')'', series_values = dt_days ds\<rparr>"
    for unit' col_suffix'
  proof -
    from calculate_time_delta_eq[OF assms(1,2,3), where unit = unit' and col_suffix = col_suffix'] assms(4)
    obtain ds' where ds': "length ds' = length (rows df)"
      "\<forall>k < length (rows df).
        ds' ! k = (case (cell_at df end' (rows df ! k), cell_at df start (rows df ! k)) of
                    (Timestamp e, Timestamp b) \<Rightarrow> Some (e - b)
                  | _ \<Rightarrow> None)"
      "snd (calculate_time_delta df start end' unit' col_suffix') =
         Inr \<lparr>series_name = ''duration('' @ unit' @ '')'', series_values = dt_days ds'\<rparr>"
      by auto
    have "ds' = ds" using ds(1,2) ds'(1,2) by (intro nth_equalityI) simp_all
    then show ?thesis using ds'(3) by simp
  qed
  have days: "\<exists>d. (dt_days ds ! k = Integer d \<or> dt_days ds ! k = Decimal (of_int d)) \<and>
                  d * day_ns \<le> e - b \<and> e - b < (d + 1) * day_ns"
    if "k < length (rows df)" "cell_at df end' (rows df ! k) = Timestamp e"
      "cell_at df start (rows df ! k) = Timestamp b" for k e b
  proof -
    have "ds ! k = Some (e - b)" using ds(2) that by simp
    then have "dt_days ds ! k = Integer ((e - b) div day_ns) \<or>
               dt_days ds ! k = Decimal (of_int ((e - b) div day_ns))"
      using dt_days_nth[of k ds] that(1) ds(1) by simp
    then show ?thesis using div_day_ns[of "e - b"] by blast
  qed
  have nulls: "dt_days ds ! k = Null"
    if "k < length (rows df)"
      "cell_at df end' (rows df ! k) = Null \<or> cell_at df start (rows df ! k) = Null" for k
  proof -
    have "ds ! k = None" using ds(2) that by (auto split: cell.splits)
    then show ?thesis using dt_days_nth[of k ds] that(1) ds(1) by simp
  qed
  show ?thesis
    apply (rule exI[of _ "dt_days ds"])
    apply (intro conjI allI impI)
        apply (rule ds(3))
       apply (simp add: ds(1))
    using days apply blast
    using nulls apply blast
    apply (rule other)
    done
qed

theorem duration_column_witness:
  "dataframe start_frame \<and> datetime_column start_frame ''date_start'' \<and>
   datetime_column start_frame ''date_end'' \<and> ''date_start'' \<noteq> ''date_of_birth'' \<and>
   snd (calculate_time_delta start_frame ''date_start'' ''date_end'' ''years'' []) =
     Inr \<lparr>series_name = ''duration(years)'', series_values = [Integer 389]\<rparr>"
proof -
  have d: "dataframe start_frame" by (simp add: start_frame_def dataframe_def)
  have s: "datetime_column start_frame ''date_start''"
    by (simp add: start_frame_def datetime_column_def cell_at_def)
  have e: "datetime_column start_frame ''date_end''"
    by (simp add: start_frame_def datetime_column_def cell_at_def)
  have n: "''date_start'' \<noteq> ''date_of_birth''" by simp
  from duration_column[OF d s e n, of "''days''" "[]"]
  obtain vs where vs:
    "\<forall>unit' col_suffix'.
       snd (calculate_time_delta start_frame ''date_start'' ''date_end'' unit' col_suffix') =
         Inr \<lparr>series_name = ''duration('' @ unit' @ '')'', series_values = vs\<rparr>"
    by blast
  have "snd (calculate_time_delta start_frame ''date_start'' ''date_end'' ''days'' []) =
          Inr \<lparr>series_name = ''duration(days)'', series_values = [Integer 389]\<rparr>"
    by code_simp
  then have "vs = [Integer 389]" using vs by simp
  then have "snd (calculate_time_delta start_frame ''date_start'' ''date_end'' ''years'' []) =
     Inr \<lparr>series_name = ''duration(years)'', series_values = [Integer 389]\<rparr>"
    using vs by simp
  then show ?thesis using d s e n by blast
qed

text \<open>
  C7. For the start column \<^verbatim>\<open>date_of_birth\<close> and the unit \<^verbatim>\<open>years\<close> (both columns of dtype
  \<^verbatim>\<open>datetime64\<close>), the function returns the Series named \<^verbatim>\<open>age_upon_<suffix>(years)\<close>.
  Where both timestamps are present, its value is a multiple of one tenth within one
  twentieth of \<open>d / 365.25\<close>, for \<open>d\<close> the whole days of end minus start: \<open>d / 365.25\<close> rounded
  to one decimal place. For 389 days it is 1.1. (A decimal stands for the nearest
  \<^verbatim>\<open>float64\<close>.)
\<close>

theorem age_in_years:
  assumes "dataframe df" and "datetime_column df ''date_of_birth''" and "datetime_column df end'"
  shows "\<exists>vs. snd (calculate_time_delta df ''date_of_birth'' end' ''years'' col_suffix) =
                Inr \<lparr>series_name = ''age_upon_'' @ col_suffix @ ''(years)'', series_values = vs\<rparr> \<and>
              length vs = length (rows df) \<and>
              (\<forall>k < length (rows df). \<forall>e b.
                 cell_at df end' (rows df ! k) = Timestamp e \<and>
                 cell_at df ''date_of_birth'' (rows df ! k) = Timestamp b \<longrightarrow>
                 (\<exists>d n. d * day_ns \<le> e - b \<and> e - b < (d + 1) * day_ns \<and>
                        vs ! k = Decimal (of_int n / 10) \<and>
                        \<bar>of_int n / 10 - of_int d / (36525 / 100) :: rat\<bar> \<le> 1 / 20 \<and>
                        (d = 389 \<longrightarrow> vs ! k = Decimal (11 / 10))))"
proof -
  from calculate_time_delta_eq[OF assms(1,2,3), where unit = "''years''" and col_suffix = col_suffix]
  obtain ds where ds: "length ds = length (rows df)"
    "\<forall>k < length (rows df).
        ds ! k = (case (cell_at df end' (rows df ! k), cell_at df ''date_of_birth'' (rows df ! k)) of
                    (Timestamp e, Timestamp b) \<Rightarrow> Some (e - b)
                  | _ \<Rightarrow> None)"
    "snd (calculate_time_delta df ''date_of_birth'' end' ''years'' col_suffix) =
       Inr \<lparr>series_name = ''age_upon_'' @ col_suffix @ ''(years)'',
            series_values = map years_cell (dt_days ds)\<rparr>"
    by auto
  have years: "\<exists>d n. d * day_ns \<le> e - b \<and> e - b < (d + 1) * day_ns \<and>
                  map years_cell (dt_days ds) ! k = Decimal (of_int n / 10) \<and>
                  \<bar>of_int n / 10 - of_int d / (36525 / 100) :: rat\<bar> \<le> 1 / 20 \<and>
                  (d = 389 \<longrightarrow> map years_cell (dt_days ds) ! k = Decimal (11 / 10))"
    if "k < length (rows df)" "cell_at df end' (rows df ! k) = Timestamp e"
      "cell_at df ''date_of_birth'' (rows df ! k) = Timestamp b" for k e b
  proof -
    define d where "d = (e - b) div day_ns"
    have "ds ! k = Some (e - b)" using ds(2) that by simp
    then have "dt_days ds ! k = Integer d \<or> dt_days ds ! k = Decimal (of_int d)"
      using dt_days_nth[of k ds] that(1) ds(1) by (simp add: d_def)
    then have y: "map years_cell (dt_days ds) ! k = Decimal (round1 (of_int d / (36525 / 100)))"
      using years_cell_days that(1) ds(1) by simp
    from round1_near[of "of_int d / (36525 / 100)"] obtain n where
      n: "round1 (of_int d / (36525 / 100)) = of_int n / 10"
         "\<bar>of_int n / 10 - of_int d / (36525 / 100) :: rat\<bar> \<le> 1 / 20"
      by blast
    have "d = 389 \<longrightarrow> map years_cell (dt_days ds) ! k = Decimal (11 / 10)"
      using y round1_389 by simp
    then show ?thesis
      using div_day_ns[of "e - b"] y n unfolding d_def[symmetric] by auto
  qed
  show ?thesis
    apply (rule exI[of _ "map years_cell (dt_days ds)"])
    apply (intro conjI allI impI)
      apply (rule ds(3))
     apply (simp add: ds(1))
    using years apply blast
    done
qed

theorem age_in_years_witness:
  "dataframe birth_frame \<and> datetime_column birth_frame ''date_of_birth'' \<and>
   datetime_column birth_frame ''date_leave'' \<and>
   snd (calculate_time_delta birth_frame ''date_of_birth'' ''date_leave'' ''years'' ''leaving'') =
     Inr \<lparr>series_name = ''age_upon_leaving(years)'', series_values = [Decimal (11 / 10)]\<rparr>"
proof -
  have d: "dataframe birth_frame" by (simp add: birth_frame_def dataframe_def)
  have s: "datetime_column birth_frame ''date_of_birth''"
    by (simp add: birth_frame_def datetime_column_def cell_at_def)
  have e: "datetime_column birth_frame ''date_leave''"
    by (simp add: birth_frame_def datetime_column_def cell_at_def)
  from age_in_years[OF d s e, of "''leaving''"]
  obtain vs where vs:
    "snd (calculate_time_delta birth_frame ''date_of_birth'' ''date_leave'' ''years'' ''leaving'') =
       Inr \<lparr>series_name = ''age_upon_'' @ ''leaving'' @ ''(years)'', series_values = vs\<rparr>"
    "length vs = length (rows birth_frame)"
    "\<forall>k < length (rows birth_frame). \<forall>e b.
       cell_at birth_frame ''date_leave'' (rows birth_frame ! k) = Timestamp e \<and>
       cell_at birth_frame ''date_of_birth'' (rows birth_frame ! k) = Timestamp b \<longrightarrow>
       (\<exists>d n. d * day_ns \<le> e - b \<and> e - b < (d + 1) * day_ns \<and>
              vs ! k = Decimal (of_int n / 10) \<and>
              \<bar>of_int n / 10 - of_int d / (36525 / 100) :: rat\<bar> \<le> 1 / 20 \<and>
              (d = 389 \<longrightarrow> vs ! k = Decimal (11 / 10)))"
    by blast
  have c: "cell_at birth_frame ''date_leave'' (rows birth_frame ! 0) = Timestamp 1430145900000000000"
    "cell_at birth_frame ''date_of_birth'' (rows birth_frame ! 0) = Timestamp 1396454100000000000"
    "length (rows birth_frame) = 1"
    by (simp_all add: birth_frame_def cell_at_def)
  from vs(3) c obtain d' where d':
    "d' * day_ns \<le> 1430145900000000000 - 1396454100000000000"
    "1430145900000000000 - 1396454100000000000 < (d' + 1) * day_ns"
    "d' = 389 \<longrightarrow> vs ! 0 = Decimal (11 / 10)"
    by force
  have "d' = 389" using d'(1,2) by (simp add: day_ns_def)
  then have "vs ! 0 = Decimal (11 / 10)" using d'(3) by simp
  moreover have "length vs = 1" using vs(2) c(3) by simp
  ultimately have "vs = [Decimal (11 / 10)]" by (cases vs) auto
  then show ?thesis using vs(1) d s e by simp
qed

text \<open>
  C9. For a dictionary of addresses (distinct file names): when no call of the loop
  raises, the loop returns a dictionary that holds exactly the datasets whose address
  answered 200; an entry whose address answered another status is not in it, and its
  diagnostic line is printed. The function raises \<^verbatim>\<open>KeyError\<close> if and only if the loop
  returned and \<^verbatim>\<open>intake\<close> or \<^verbatim>\<open>outcome\<close> is not in the dictionary, that is, if and only
  if every call answered and one of the two was not collected.
\<close>

theorem get_data_lookup:
  assumes "distinct (map fst urls)"
  shows "(answers net urls \<longrightarrow>
           (\<exists>d. fetch_all net urls Map.empty [] = (fst (get_data net urls), Inr d) \<and>
                (\<forall>n. d n \<noteq> None \<longleftrightarrow> collected net urls n) \<and>
                (\<forall>n u c. (n, u) \<in> set urls \<and> requests_get net u = Some c \<and> c \<noteq> 200 \<longrightarrow>
                   d n = None \<and> Failed_to_retrieve n c \<in> set (fst (get_data net urls))))) \<and>
         (snd (get_data net urls) = Inl KeyError \<longleftrightarrow>
            (\<exists>printed d. fetch_all net urls Map.empty [] = (printed, Inr d) \<and>
                (d ''intake'' = None \<or> d ''outcome'' = None))) \<and>
         (snd (get_data net urls) = Inl KeyError \<longleftrightarrow>
            answers net urls \<and>
            (\<not> collected net urls ''intake'' \<or> \<not> collected net urls ''outcome''))"
proof -
  have completes: "\<exists>d. fetch_all net urls Map.empty [] = (fst (get_data net urls), Inr d) \<and>
                (\<forall>n. d n \<noteq> None \<longleftrightarrow> collected net urls n) \<and>
                (\<forall>n u c. (n, u) \<in> set urls \<and> requests_get net u = Some c \<and> c \<noteq> 200 \<longrightarrow>
                   d n = None \<and> Failed_to_retrieve n c \<in> set (fst (get_data net urls)))"
    if a: "answers net urls"
  proof -
    from fetch_all_eq[OF a assms, of Map.empty "[]"]
    obtain printed d where r: "fetch_all net urls Map.empty [] = (printed, Inr d)"
      "\<forall>n. d n = (if collected net urls n then read_csv net (the (map_of urls n)) else None)"
      "\<forall>n u c. (n, u) \<in> set urls \<and> requests_get net u = Some c \<and> c \<noteq> 200 \<longrightarrow>
                Failed_to_retrieve n c \<in> set printed"
      by auto
    have p: "fst (get_data net urls) = printed"
      by (simp add: get_data_def r(1) split: option.splits)
    have c: "d n \<noteq> None \<longleftrightarrow> collected net urls n" for n
      using r(2) collected_read[OF a assms, of n] by simp
    have "d n = None" if "(n, u) \<in> set urls" "requests_get net u = Some c" "c \<noteq> 200" for n u c
      using not_collected[OF assms that] c[of n] by simp
    then show ?thesis using r(1,3) c p by blast
  qed
  have key: "snd (get_data net urls) = Inl KeyError \<longleftrightarrow>
            (\<exists>printed d. fetch_all net urls Map.empty [] = (printed, Inr d) \<and>
                (d ''intake'' = None \<or> d ''outcome'' = None))"
  proof (cases "fetch_all net urls Map.empty []")
    case (Pair printed r)
    show ?thesis
    proof (cases r)
      case (Inl e)
      then have "e \<noteq> KeyError" using fetch_all_raises[of net urls Map.empty "[]" printed e] Pair by simp
      then show ?thesis using Pair Inl by (simp add: get_data_def)
    next
      case (Inr d)
      then show ?thesis using Pair by (auto simp: get_data_def split: option.splits)
    qed
  qed
  have key2: "(\<exists>printed d. fetch_all net urls Map.empty [] = (printed, Inr d) \<and>
                (d ''intake'' = None \<or> d ''outcome'' = None)) \<longleftrightarrow>
            answers net urls \<and>
            (\<not> collected net urls ''intake'' \<or> \<not> collected net urls ''outcome'')"
  proof (cases "answers net urls")
    case True
    from completes[OF True] obtain d where d: "fetch_all net urls Map.empty [] = (fst (get_data net urls), Inr d)"
      "\<forall>n. d n \<noteq> None \<longleftrightarrow> collected net urls n"
      by blast
    have i: "d ''intake'' = None \<longleftrightarrow> \<not> collected net urls ''intake''"
      and o: "d ''outcome'' = None \<longleftrightarrow> \<not> collected net urls ''outcome''"
      using d(2) by blast+
    show ?thesis using True d(1) i o by auto
  next
    case False
    have "fetch_all net urls Map.empty [] \<noteq> (printed, Inr d)" for printed d
      using fetch_all_returns[of net urls Map.empty "[]" printed d] False by blast
    then show ?thesis using False by simp
  qed
  show ?thesis using completes key key2 by blast
qed

theorem get_data_lookup_witness:
  "distinct (map fst example_urls) \<and> answers example_network example_urls \<and>
   \<not> collected example_network example_urls ''outcome'' \<and>
   snd (get_data example_network example_urls) = Inl KeyError \<and>
   Failed_to_retrieve ''outcome'' 404 \<in> set (fst (get_data example_network example_urls))"
proof -
  have d: "distinct (map fst example_urls)" by (simp add: example_urls_def)
  have a: "answers example_network example_urls"
    by (simp add: answers_def example_urls_def example_network_def)
  have c: "\<not> collected example_network example_urls ''outcome''"
    by (simp add: collected_def example_urls_def example_network_def)
  have m: "(''outcome'', ''https://outcome'') \<in> set example_urls"
    "requests_get example_network ''https://outcome'' = Some 404" "(404::nat) \<noteq> 200"
    by (simp_all add: example_urls_def example_network_def)
  note t = get_data_lookup[OF d, of example_network]
  have k: "snd (get_data example_network example_urls) = Inl KeyError"
    using t a c by blast
  have f: "Failed_to_retrieve ''outcome'' 404 \<in> set (fst (get_data example_network example_urls))"
    using t a m by blast
  show ?thesis using d a c k f by blast
qed

text \<open>
  C6, with the library on ISO 8601 strings. For every table, column and format: a call
  that returns has replaced the column by \<^verbatim>\<open>pd.to_datetime\<close> of the strings the parsed
  column renders to, and has left the labels, the number of rows and every other column
  as they were; the call returns whenever the column renders and the rendered strings
  parse, and otherwise raises what the rendering or the second parse raised. So the
  returned column is read back from the rendered strings alone: two tables whose columns
  render to the same strings get the same column, whatever finer values they held. With
  the format \<^verbatim>\<open>%Y-%m-%d\<close> every value of the returned column is a midnight. The value
  \<^verbatim>\<open>2014-04-02 15:55:00\<close>, which parses to 15:55 on the day 2014-04-02, renders to
  \<^verbatim>\<open>2014-04-02\<close> and is replaced by the timestamp of that day at midnight.
\<close>

theorem date_format_truncates:
  assumes "dataframe df"
  shows "(\<forall>s out. date_format iso_datetimes df col fmt = (s, Inr out) \<longrightarrow>
            out = s \<and> columns out = columns df \<and> length (rows out) = length (rows df) \<and>
            (\<exists>strings. rendered iso_datetimes df col fmt = Inr strings \<and>
                       get_column out col = to_datetime iso_datetimes strings) \<and>
            (\<forall>c \<in> set (columns df). c \<noteq> col \<longrightarrow> get_column out c = get_column df c)) \<and>
         (\<forall>strings reparsed.
            rendered iso_datetimes df col fmt = Inr strings \<and>
            to_datetime iso_datetimes strings = Inr reparsed \<longrightarrow>
            (\<exists>out. date_format iso_datetimes df col fmt = (out, Inr out) \<and>
                   get_column out col = Inr reparsed)) \<and>
         (\<forall>e. snd (date_format iso_datetimes df col fmt) = Inl e \<longrightarrow>
            rendered iso_datetimes df col fmt = Inl e \<or>
            (\<exists>strings. rendered iso_datetimes df col fmt = Inr strings \<and>
                       to_datetime iso_datetimes strings = Inl e)) \<and>
         (\<forall>s out vs.
            date_format iso_datetimes df col ''%Y-%m-%d'' = (s, Inr out) \<and>
            get_column out col = Inr vs \<longrightarrow>
            (\<forall>v \<in> set vs. v = Null \<or> (\<exists>t. v = Timestamp t \<and> t mod day_ns = 0))) \<and>
         (\<forall>df' s s' out out'.
            dataframe df' \<and>
            date_format iso_datetimes df col fmt = (s, Inr out) \<and>
            date_format iso_datetimes df' col fmt = (s', Inr out') \<and>
            rendered iso_datetimes df col fmt = rendered iso_datetimes df' col fmt \<longrightarrow>
            get_column out col = get_column out' col) \<and>
         rendered iso_datetimes date_frame ''date'' ''%Y-%m-%d'' = Inr [Str ''2014-04-02''] \<and>
         date_format iso_datetimes date_frame ''date'' ''%Y-%m-%d'' =
           (\<lparr>columns = [''date''], rows = [[Timestamp (days_from_civil 2014 4 2 * day_ns)]]\<rparr>,
            Inr \<lparr>columns = [''date''], rows = [[Timestamp (days_from_civil 2014 4 2 * day_ns)]]\<rparr>) \<and>
         to_datetime iso_datetimes [Str ''2014-04-02 15:55:00''] =
           Inr [Timestamp (days_from_civil 2014 4 2 * day_ns + 15 * 3600000000000 + 55 * 60000000000)]"
proof -
  have A: "out = s \<and> columns out = columns df \<and> length (rows out) = length (rows df) \<and>
            (\<exists>strings. rendered iso_datetimes df col fmt = Inr strings \<and>
                       get_column out col = to_datetime iso_datetimes strings) \<and>
            (\<forall>c \<in> set (columns df). c \<noteq> col \<longrightarrow> get_column out c = get_column df c)"
    if "date_format iso_datetimes df col fmt = (s, Inr out)" for s out
    using date_format_steps[OF assms that] by auto
  have B: "\<exists>out. date_format iso_datetimes df col fmt = (out, Inr out) \<and> get_column out col = Inr reparsed"
    if "rendered iso_datetimes df col fmt = Inr strings \<and> to_datetime iso_datetimes strings = Inr reparsed"
    for strings reparsed
  proof -
    from date_format_returns[OF assms] that obtain out where
      out: "date_format iso_datetimes df col fmt = (out, Inr out)" by blast
    from date_format_steps[OF assms out] that show ?thesis using out by auto
  qed
  have C: "rendered iso_datetimes df col fmt = Inl e \<or>
            (\<exists>strings. rendered iso_datetimes df col fmt = Inr strings \<and>
                       to_datetime iso_datetimes strings = Inl e)"
    if "snd (date_format iso_datetimes df col fmt) = Inl e" for e
    by (rule date_format_raises[OF assms that])
  have D: "v = Null \<or> (\<exists>t. v = Timestamp t \<and> t mod day_ns = 0)"
    if ret: "date_format iso_datetimes df col ''%Y-%m-%d'' = (s, Inr out) \<and> get_column out col = Inr vs"
      and v: "v \<in> set vs" for s out vs v
  proof -
    from ret date_format_steps[OF assms, of col "''%Y-%m-%d''" s out]
    obtain xs parsed strings where
      p: "to_datetime iso_datetimes xs = Inr parsed"
         "strftime iso_datetimes ''%Y-%m-%d'' parsed = Inr strings"
         "to_datetime iso_datetimes strings = Inr vs"
      by auto
    have s1: "sequence (map to_datetime_cell xs) = Inr parsed"
      and s2: "sequence (map (strftime_cell ''%Y-%m-%d'') parsed) = Inr strings"
      and s3: "sequence (map to_datetime_cell strings) = Inr vs"
      using p by (simp_all add: iso_datetimes_def)
    have l: "length parsed = length xs" "length strings = length parsed" "length vs = length strings"
      using length_sequence[OF s1] length_sequence[OF s2] length_sequence[OF s3] by simp_all
    from v obtain k where k: "k < length vs" "v = vs ! k" by (auto simp: in_set_conv_nth)
    have "to_datetime_cell (xs ! k) = Inr (parsed ! k)"
      using sequence_nth[OF s1] k(1) l by simp
    moreover have "strftime_cell ''%Y-%m-%d'' (parsed ! k) = Inr (strings ! k)"
      using sequence_nth[OF s2] k(1) l by simp
    moreover have "to_datetime_cell (strings ! k) = Inr (vs ! k)"
      using sequence_nth[OF s3] k(1) l by simp
    ultimately show ?thesis using reformat_date_cell k(2) by blast
  qed
  have E: "get_column out col = get_column out' col"
    if a: "dataframe df' \<and>
            date_format iso_datetimes df col fmt = (s, Inr out) \<and>
            date_format iso_datetimes df' col fmt = (s', Inr out') \<and>
            rendered iso_datetimes df col fmt = rendered iso_datetimes df' col fmt"
    for df' s s' out out'
  proof -
    from a date_format_steps[OF assms, of col fmt s out] obtain strings reparsed where
      1: "rendered iso_datetimes df col fmt = Inr strings"
         "to_datetime iso_datetimes strings = Inr reparsed"
         "get_column s col = Inr reparsed" "out = s"
      by auto
    from a date_format_steps[of df' col fmt s' out'] obtain strings' reparsed' where
      2: "rendered iso_datetimes df' col fmt = Inr strings'"
         "to_datetime iso_datetimes strings' = Inr reparsed'"
         "get_column s' col = Inr reparsed'" "out' = s'"
      by auto
    have "strings = strings'" using a 1(1) 2(1) by simp
    then show ?thesis using 1 2 by simp
  qed
  have F: "rendered iso_datetimes date_frame ''date'' ''%Y-%m-%d'' = Inr [Str ''2014-04-02'']"
    by code_simp
  have G: "date_format iso_datetimes date_frame ''date'' ''%Y-%m-%d'' =
           (\<lparr>columns = [''date''], rows = [[Timestamp (days_from_civil 2014 4 2 * day_ns)]]\<rparr>,
            Inr \<lparr>columns = [''date''], rows = [[Timestamp (days_from_civil 2014 4 2 * day_ns)]]\<rparr>)"
    by code_simp
  have H: "to_datetime iso_datetimes [Str ''2014-04-02 15:55:00''] =
           Inr [Timestamp (days_from_civil 2014 4 2 * day_ns + 15 * 3600000000000 + 55 * 60000000000)]"
    by code_simp
  show ?thesis
    apply (intro conjI allI impI ballI)
    using A apply blast
    using A apply blast
    using A apply blast
    using A apply blast
    using A apply blast
    using B apply blast
    using C apply blast
    using D apply blast
    using E apply blast
    apply (rule F)
    apply (rule G)
    apply (rule H)
    done
qed

theorem date_format_truncates_witness:
  "dataframe date_frame \<and> dataframe midnight_frame \<and>
   rendered iso_datetimes date_frame ''date'' ''%Y-%m-%d'' = Inr [Str ''2014-04-02''] \<and>
   rendered iso_datetimes midnight_frame ''date'' ''%Y-%m-%d'' = Inr [Str ''2014-04-02''] \<and>
   to_datetime iso_datetimes [Str ''2014-04-02''] =
     Inr [Timestamp (days_from_civil 2014 4 2 * day_ns)] \<and>
   get_column date_frame ''date'' \<noteq> get_column midnight_frame ''date'' \<and>
   (\<exists>out. date_format iso_datetimes date_frame ''date'' ''%Y-%m-%d'' = (out, Inr out) \<and>
          get_column out ''date'' = Inr [Timestamp (days_from_civil 2014 4 2 * day_ns)] \<and>
          columns out = columns date_frame) \<and>
   (\<exists>out'. date_format iso_datetimes midnight_frame ''date'' ''%Y-%m-%d'' = (out', Inr out') \<and>
          get_column out' ''date'' = Inr [Timestamp (days_from_civil 2014 4 2 * day_ns)])"
proof -
  have d: "dataframe date_frame" and d': "dataframe midnight_frame"
    by (simp_all add: date_frame_def midnight_frame_def dataframe_def)
  have r: "rendered iso_datetimes date_frame ''date'' ''%Y-%m-%d'' = Inr [Str ''2014-04-02'']"
    and r': "rendered iso_datetimes midnight_frame ''date'' ''%Y-%m-%d'' = Inr [Str ''2014-04-02'']"
    and p: "to_datetime iso_datetimes [Str ''2014-04-02''] =
              Inr [Timestamp (days_from_civil 2014 4 2 * day_ns)]"
    by code_simp+
  have n: "get_column date_frame ''date'' \<noteq> get_column midnight_frame ''date''"
    by code_simp
  note t = date_format_truncates[OF d, of "''date''" "''%Y-%m-%d''"]
  note t' = date_format_truncates[OF d', of "''date''" "''%Y-%m-%d''"]
  from t r p obtain out where
    out: "date_format iso_datetimes date_frame ''date'' ''%Y-%m-%d'' = (out, Inr out)"
      "get_column out ''date'' = Inr [Timestamp (days_from_civil 2014 4 2 * day_ns)]"
    by blast
  from t out(1) have c: "columns out = columns date_frame" by blast
  from t' r' p obtain out' where
    out': "date_format iso_datetimes midnight_frame ''date'' ''%Y-%m-%d'' = (out', Inr out')"
      "get_column out' ''date'' = Inr [Timestamp (days_from_civil 2014 4 2 * day_ns)]"
    by blast
  show ?thesis using d d' r r' p n out out' c by blast
qed

end
